theory Spec2Isabelle
  imports Complex_Main "HOL-Library.AList" "HOL-Library.Product_Lexorder"
begin

section \<open>Drag Race Tournament Manager: the model of \<open>app.py\<close>\<close>

text \<open>
  The embedding follows \<open>src/app.py\<close>. Python objects become records, the
  \<open>drivers\<close> dictionary becomes an association list in insertion order (Python
  dictionaries iterate in insertion order, and the rankings depend on it), a raised
  exception becomes the left summand of a result, and every method that mutates the
  manager returns the manager it leaves behind, also when it raises half way.
  A string is the UTF-8 encoding of the Python \<open>str\<close>; Python integers are
  \<open>int\<close>.
\<close>

subsection \<open>Python helpers\<close>

datatype py_error = KeyError | TypeError | ZeroDivisionError | OverflowError

text \<open>
  A dictionary with string keys. \<open>k in d\<close> is \<open>has_key d k\<close>, \<open>d[k]\<close> is
  \<open>map_of d k\<close> (\<open>None\<close> where Python raises \<open>KeyError\<close>), \<open>d[k] = v\<close> is
  \<open>AList.update k v d\<close> (in place for a known key, at the end for a new one) and
  \<open>del d[k]\<close> is \<open>AList.delete k d\<close>.
\<close>

type_synonym 'v dict = "(string \<times> 'v) list"

definition has_key :: "'v dict \<Rightarrow> string \<Rightarrow> bool" where
  "has_key d k = (map_of d k \<noteq> None)"

definition dict_values :: "'v dict \<Rightarrow> 'v list" where
  "dict_values d = map snd d"

text \<open>
  A dictionary comprehension inserts the items one after the other into a new
  dictionary, and a list comprehension appends them; either stops at the first element
  whose construction raises.
\<close>

fun dict_comp :: "('a \<Rightarrow> py_error + 'b) \<Rightarrow> 'a dict \<Rightarrow> 'b dict \<Rightarrow> py_error + 'b dict" where
  "dict_comp f [] acc = Inr acc"
| "dict_comp f ((k, v) # kvs) acc =
     (case f v of Inl e \<Rightarrow> Inl e | Inr v' \<Rightarrow> dict_comp f kvs (AList.update k v' acc))"

fun list_comp :: "('a \<Rightarrow> py_error + 'b) \<Rightarrow> 'a list \<Rightarrow> py_error + 'b list" where
  "list_comp f [] = Inr []"
| "list_comp f (x # xs) =
     (case f x of
        Inl e \<Rightarrow> Inl e
      | Inr y \<Rightarrow> (case list_comp f xs of Inl e \<Rightarrow> Inl e | Inr ys \<Rightarrow> Inr (y # ys)))"

text \<open>
  \<open>str.strip()\<close> removes, at both ends, every character for which \<open>str.isspace\<close>
  holds. These are 29 code points: U+0009 to U+000D, U+001C to U+001F, U+0020, U+0085,
  U+00A0, U+1680, U+2000 to U+200A, U+2028, U+2029, U+202F, U+205F and U+3000;
  \<open>whitespace\<close> lists their UTF-8 encodings. In well-formed UTF-8 a string begins
  (ends) with the encoding of a character exactly when that is its first (last)
  character, so the characters are taken off the encoded string one encoding at a time.
\<close>

definition whitespace :: "string list" where
  "whitespace =
     [[CHR 0x09], [CHR 0x0A], [CHR 0x0B], [CHR 0x0C], [CHR 0x0D], [CHR 0x1C], [CHR 0x1D],
      [CHR 0x1E], [CHR 0x1F], [CHR 0x20], [CHR 0xC2, CHR 0x85], [CHR 0xC2, CHR 0xA0],
      [CHR 0xE1, CHR 0x9A, CHR 0x80], [CHR 0xE2, CHR 0x80, CHR 0x80],
      [CHR 0xE2, CHR 0x80, CHR 0x81], [CHR 0xE2, CHR 0x80, CHR 0x82],
      [CHR 0xE2, CHR 0x80, CHR 0x83], [CHR 0xE2, CHR 0x80, CHR 0x84],
      [CHR 0xE2, CHR 0x80, CHR 0x85], [CHR 0xE2, CHR 0x80, CHR 0x86],
      [CHR 0xE2, CHR 0x80, CHR 0x87], [CHR 0xE2, CHR 0x80, CHR 0x88],
      [CHR 0xE2, CHR 0x80, CHR 0x89], [CHR 0xE2, CHR 0x80, CHR 0x8A],
      [CHR 0xE2, CHR 0x80, CHR 0xA8], [CHR 0xE2, CHR 0x80, CHR 0xA9],
      [CHR 0xE2, CHR 0x80, CHR 0xAF], [CHR 0xE2, CHR 0x81, CHR 0x9F],
      [CHR 0xE3, CHR 0x80, CHR 0x80]]"

definition is_space :: "string \<Rightarrow> bool" where
  "is_space w = (w \<in> set whitespace)"

fun lstrip_by :: "(string \<Rightarrow> bool) \<Rightarrow> string \<Rightarrow> string" where
  "lstrip_by sp (a # b # c # cs) =
     (if sp [a] then lstrip_by sp (b # c # cs)
      else if sp [a, b] then lstrip_by sp (c # cs)
      else if sp [a, b, c] then lstrip_by sp cs
      else a # b # c # cs)"
| "lstrip_by sp [a, b] =
     (if sp [a] then lstrip_by sp [b] else if sp [a, b] then [] else [a, b])"
| "lstrip_by sp [a] = (if sp [a] then [] else [a])"
| "lstrip_by sp [] = []"

definition lstrip :: "string \<Rightarrow> string" where
  "lstrip s = lstrip_by is_space s"

definition rstrip :: "string \<Rightarrow> string" where
  "rstrip s = rev (lstrip_by (\<lambda>w. is_space (rev w)) (rev s))"

definition strip :: "string \<Rightarrow> string" where
  "strip s = rstrip (lstrip s)"

text \<open>\<open>str(n)\<close> for an integer, as the f-strings print it.\<close>

definition digit_char :: "nat \<Rightarrow> char" where
  "digit_char n = ''0123456789'' ! n"

fun str_nat :: "nat \<Rightarrow> string" where
  "str_nat n = (if n < 10 then [digit_char n] else str_nat (n div 10) @ [digit_char (n mod 10)])"

declare str_nat.simps [simp del]

definition str_int :: "int \<Rightarrow> string" where
  "str_int i = (if i < 0 then CHR ''-'' # str_nat (nat (- i)) else str_nat (nat i))"

subsection \<open>DriverStatus and Driver\<close>

definition ACTIVE :: string where "ACTIVE = ''ACTIVE''"
definition ELIMINATED :: string where "ELIMINATED = ''ELIMINATED''"
definition INACTIVE :: string where "INACTIVE = ''INACTIVE''"

record driver =
  name :: string
  division :: string
  wins :: int
  losses :: int
  races :: "int list"
  status :: string

text \<open>\<open>Driver.__init__\<close>; \<open>races or []\<close> is \<open>races\<close> itself for a list.\<close>

definition Driver :: "string \<Rightarrow> string \<Rightarrow> int \<Rightarrow> int \<Rightarrow> int list \<Rightarrow> string \<Rightarrow> driver" where
  "Driver n dv w l rs st =
     \<lparr>name = n, division = dv, wins = w, losses = l, races = rs, status = st\<rparr>"

definition total_races :: "driver \<Rightarrow> int" where
  "total_races d = wins d + losses d"

text \<open>
  \<open>a / b\<close> on Python integers: \<open>ZeroDivisionError\<close> for a zero divisor,
  otherwise the exact quotient rounded to the nearest double, and \<open>OverflowError\<close>
  when that is no finite double, which is when the magnitude of the quotient is at
  least \<open>float_limit\<close> (half a unit in the last place above the largest double). The rounding of a quotient below that bound is the parameter \<open>fl\<close>; no
  claim depends on what it is.
\<close>

definition float_limit :: real where
  "float_limit = 2 ^ 1024 - 2 ^ 970"

definition true_div :: "(real \<Rightarrow> real) \<Rightarrow> int \<Rightarrow> int \<Rightarrow> py_error + real" where
  "true_div fl a b =
     (if b = 0 then Inl ZeroDivisionError
      else if \<bar>real_of_int a / real_of_int b\<bar> \<ge> float_limit then Inl OverflowError
      else Inr (fl (real_of_int a / real_of_int b)))"

definition win_ratio :: "(real \<Rightarrow> real) \<Rightarrow> driver \<Rightarrow> py_error + real" where
  "win_ratio fl d =
     (if total_races d > 0 then true_div fl (wins d) (total_races d) else Inr 0)"

definition is_eliminated :: "driver \<Rightarrow> bool" where
  "is_eliminated d = (losses d \<ge> 3)"

definition update_status :: "driver \<Rightarrow> driver" where
  "update_status d = (if is_eliminated d then d\<lparr>status := ELIMINATED\<rparr> else d\<lparr>status := ACTIVE\<rparr>)"

definition add_race_result :: "driver \<Rightarrow> int \<Rightarrow> bool \<Rightarrow> driver" where
  "add_race_result d race_no won =
     (let d1 = d\<lparr>races := races d @ [race_no]\<rparr>;
          d2 = (if won then d1\<lparr>wins := wins d1 + 1\<rparr> else d1\<lparr>losses := losses d1 + 1\<rparr>)
      in update_status d2)"

subsection \<open>Race\<close>

record race =
  race_number :: int
  driver1 :: string
  driver2 :: string
  winner :: string
  race_division :: string
  timestamp :: string
  driver3 :: "string option"
  race_type :: string

text \<open>
  \<open>Race.__init__\<close>. The clock reading \<open>datetime.now().isoformat()\<close> is the
  parameter \<open>now\<close>; \<open>timestamp or now\<close> takes the clock for \<open>None\<close> and for the
  empty string.
\<close>

definition Race :: "string \<Rightarrow> int \<Rightarrow> string \<Rightarrow> string \<Rightarrow> string \<Rightarrow> string \<Rightarrow> string option
    \<Rightarrow> string option \<Rightarrow> string \<Rightarrow> race" where
  "Race now rn d1 d2 w dv ts d3 rt =
     \<lparr>race_number = rn, driver1 = d1, driver2 = d2, winner = w, race_division = dv,
      timestamp = (case ts of None \<Rightarrow> now | Some t \<Rightarrow> if t = [] then now else t),
      driver3 = d3, race_type = rt\<rparr>"

subsection \<open>TournamentManager\<close>

record tournament =
  drivers :: "driver dict"
  race_log :: "race list"
  race_counter :: int

definition divisions :: "string list" where
  "divisions = [''2X4_4CYL'', ''4X4_4CYL'', ''4X4_6CYL_PETROL'', ''4X4_6CYL_DIESEL'',
                ''4X4_V8_PETROL'', ''4X4_V8_DIESEL'', ''DAMES'', ''OPEN'']"

definition TournamentManager :: tournament where
  "TournamentManager = \<lparr>drivers = [], race_log = [], race_counter = 0\<rparr>"

text \<open>A method's outcome: the exception it raised, or the pair it returned.\<close>

type_synonym outcome = "py_error + bool \<times> string"

definition add_driver :: "string \<Rightarrow> string \<Rightarrow> tournament \<Rightarrow> outcome \<times> tournament" where
  "add_driver name0 dv s =
     (let n = strip name0 in
      if n = [] \<or> has_key (drivers s) n then
        (Inr (False, ''Driver '' @ [CHR 0x27] @ n @ [CHR 0x27] @ '' already exists or is empty''), s)
      else if dv \<notin> set divisions then
        (Inr (False, ''Invalid division: '' @ dv), s)
      else
        (Inr (True, ''Successfully added '' @ n @ '' to '' @ dv),
         s\<lparr>drivers := AList.update n (Driver n dv 0 0 [] ACTIVE) (drivers s)\<rparr>))"

text \<open>
  The participants of a race: \<open>if driver3_name:\<close> appends the third name when it is
  neither \<open>None\<close> nor empty.
\<close>

definition racing_drivers :: "string \<Rightarrow> string \<Rightarrow> string option \<Rightarrow> string list" where
  "racing_drivers d1 d2 d3 =
     [d1, d2] @ (case d3 of None \<Rightarrow> [] | Some n \<Rightarrow> if n = [] then [] else [n])"

text \<open>
  The loop over the participants at the end of \<open>record_race\<close>: every name that is
  not the winner's is looked up and charged a loss; a name that is not a key raises
  \<open>KeyError\<close> and leaves the manager as the loop had changed it so far.
\<close>

fun record_losers :: "string \<Rightarrow> string list \<Rightarrow> tournament \<Rightarrow> py_error option \<times> tournament" where
  "record_losers w [] s = (None, s)"
| "record_losers w (n # ns) s =
     (if n \<noteq> w then
        (case map_of (drivers s) n of
           None \<Rightarrow> (Some KeyError, s)
         | Some loser \<Rightarrow>
             record_losers w ns
               (s\<lparr>drivers := AList.update n (add_race_result loser (race_counter s) False) (drivers s)\<rparr>))
      else record_losers w ns s)"

definition record_race :: "string \<Rightarrow> string \<Rightarrow> string \<Rightarrow> string \<Rightarrow> string option \<Rightarrow> string
    \<Rightarrow> tournament \<Rightarrow> outcome \<times> tournament" where
  "record_race now driver1_name driver2_name winner_name driver3_name rtype s =
     (case map_of (drivers s) driver1_name of
        None \<Rightarrow> (Inr (False, ''Driver not found''), s)
      | Some d1 \<Rightarrow>
     (case map_of (drivers s) driver2_name of
        None \<Rightarrow> (Inr (False, ''Driver not found''), s)
      | Some d2 \<Rightarrow>
        if winner_name \<notin> set (racing_drivers driver1_name driver2_name driver3_name) then
          (Inr (False, ''Winner must be one of the racing drivers''), s)
        else if division d1 \<noteq> division d2 then
          (Inr (False, ''Drivers must be in the same division''), s)
        else if is_eliminated d1 \<or> is_eliminated d2 then
          (Inr (False, ''Eliminated drivers cannot race''), s)
        else
          (let s1 = s\<lparr>race_counter := race_counter s + 1\<rparr>;
               r = Race now (race_counter s1) driver1_name driver2_name winner_name
                     (division d1) None driver3_name rtype;
               s2 = s1\<lparr>race_log := race_log s1 @ [r]\<rparr>
           in case map_of (drivers s2) winner_name of
                None \<Rightarrow> (Inl KeyError, s2)
              | Some w \<Rightarrow>
                  (let s3 = s2\<lparr>drivers := AList.update winner_name
                                  (add_race_result w (race_counter s2) True) (drivers s2)\<rparr>
                   in case record_losers winner_name
                             (racing_drivers driver1_name driver2_name driver3_name) s3 of
                        (Some e, s4) \<Rightarrow> (Inl e, s4)
                      | (None, s4) \<Rightarrow>
                          (Inr (True, ''Race '' @ str_int (race_counter s4) @ '': '' @ winner_name
                                      @ '' wins!''), s4)))))"

text \<open>
  \<open>get_rankings\<close>. \<open>list.sort(key=...)\<close> first computes the key of every element,
  in order, and raises what the first failing key raises; then it sorts the elements
  by their keys alone, stably, as \<open>sort_key\<close> does. The key is the tuple of the
  lambda, compared lexicographically as Python compares tuples (\<open>False < True\<close>).
  \<open>enumerate(xs, 1)\<close> numbers from 1, and each record reads \<open>win_ratio\<close> again.
\<close>

record ranking =
  rk_position :: int
  rk_name :: string
  rk_division :: string
  rk_wins :: int
  rk_losses :: int
  rk_total_races :: int
  rk_win_ratio :: real
  rk_status :: string

definition list_sort :: "('a \<Rightarrow> py_error + 'k::linorder) \<Rightarrow> 'a list \<Rightarrow> py_error + 'a list" where
  "list_sort key xs =
     (case list_comp key xs of
        Inl e \<Rightarrow> Inl e
      | Inr ks \<Rightarrow> Inr (map snd (sort_key fst (zip ks xs))))"

definition ranking_key :: "(real \<Rightarrow> real) \<Rightarrow> driver \<Rightarrow> py_error + bool \<times> int \<times> real \<times> int" where
  "ranking_key fl d =
     (case win_ratio fl d of
        Inl e \<Rightarrow> Inl e
      | Inr r \<Rightarrow> Inr (status d = ELIMINATED, - wins d, - r, losses d))"

definition rank_record :: "(real \<Rightarrow> real) \<Rightarrow> int \<Rightarrow> driver \<Rightarrow> py_error + ranking" where
  "rank_record fl pos d =
     (case win_ratio fl d of
        Inl e \<Rightarrow> Inl e
      | Inr r \<Rightarrow>
          Inr \<lparr>rk_position = pos, rk_name = name d, rk_division = division d, rk_wins = wins d,
               rk_losses = losses d, rk_total_races = total_races d, rk_win_ratio = r,
               rk_status = status d\<rparr>)"

definition in_division :: "string option \<Rightarrow> driver \<Rightarrow> bool" where
  "in_division dv d = (case dv of None \<Rightarrow> True | Some x \<Rightarrow> division d = x)"

definition drivers_to_rank :: "tournament \<Rightarrow> string option \<Rightarrow> driver list" where
  "drivers_to_rank s dv = filter (in_division dv) (dict_values (drivers s))"

definition get_rankings :: "(real \<Rightarrow> real) \<Rightarrow> tournament \<Rightarrow> string option
    \<Rightarrow> py_error + ranking list" where
  "get_rankings fl s dv =
     (case list_sort (ranking_key fl) (drivers_to_rank s dv) of
        Inl e \<Rightarrow> Inl e
      | Inr sorted_drivers \<Rightarrow>
          list_comp (\<lambda>(i, d). rank_record fl (int i) d) (enumerate 1 sorted_drivers))"

text \<open>
  The two sides of \<open>win_ratio\<close>, for the statements below: the float it returns
  when it returns, and the condition under which it raises.
\<close>

definition ratio :: "(real \<Rightarrow> real) \<Rightarrow> driver \<Rightarrow> real" where
  "ratio fl d =
     (if wins d + losses d > 0 then fl (real_of_int (wins d) / real_of_int (wins d + losses d)) else 0)"

definition overflows :: "driver \<Rightarrow> bool" where
  "overflows d =
     (wins d + losses d > 0
      \<and> \<bar>real_of_int (wins d) / real_of_int (wins d + losses d)\<bar> \<ge> float_limit)"

text \<open>
  The key as the specification words it, with the property \<open>is_eliminated\<close> of
  \<open>Driver\<close> (three or more losses) in the first place instead of the stored status.
\<close>

definition spec_key :: "ranking \<Rightarrow> bool \<times> int \<times> real \<times> int" where
  "spec_key r = (rk_losses r \<ge> 3, - rk_wins r, - rk_win_ratio r, rk_losses r)"

subsection \<open>Snapshots: \<open>to_dict\<close> and \<open>from_dict\<close>\<close>

text \<open>
  A serialized object is a record of optional fields: \<open>None\<close> is an absent key (for
  \<open>driver3\<close> and \<open>timestamp\<close> also the value \<open>null\<close>, which the constructor
  treats alike). \<open>data['name']\<close> on an absent key raises \<open>KeyError\<close>;
  \<open>Race(**race_data)\<close> without a required argument raises \<open>TypeError\<close>.
\<close>

record driver_data =
  data_name :: "string option"
  data_division :: "string option"
  data_wins :: "int option"
  data_losses :: "int option"
  data_races :: "int list option"
  data_status :: "string option"

record race_data =
  data_race_number :: "int option"
  data_driver1 :: "string option"
  data_driver2 :: "string option"
  data_winner :: "string option"
  data_race_division :: "string option"
  data_timestamp :: "string option"
  data_driver3 :: "string option"
  data_race_type :: "string option"

record tournament_data =
  snap_drivers :: "driver_data dict option"
  snap_races :: "race_data list option"
  snap_race_counter :: "int option"

definition get_default :: "'a option \<Rightarrow> 'a \<Rightarrow> 'a" where
  "get_default v dflt = (case v of None \<Rightarrow> dflt | Some x \<Rightarrow> x)"

definition Driver_to_dict :: "driver \<Rightarrow> driver_data" where
  "Driver_to_dict d =
     \<lparr>data_name = Some (name d), data_division = Some (division d), data_wins = Some (wins d),
      data_losses = Some (losses d), data_races = Some (races d), data_status = Some (status d)\<rparr>"

definition Driver_from_dict :: "driver_data \<Rightarrow> py_error + driver" where
  "Driver_from_dict data =
     (case data_name data of
        None \<Rightarrow> Inl KeyError
      | Some n \<Rightarrow>
          (case data_division data of
             None \<Rightarrow> Inl KeyError
           | Some dv \<Rightarrow>
               Inr (Driver n dv (get_default (data_wins data) 0) (get_default (data_losses data) 0)
                      (get_default (data_races data) []) (get_default (data_status data) ACTIVE))))"

definition Race_to_dict :: "race \<Rightarrow> race_data" where
  "Race_to_dict r =
     \<lparr>data_race_number = Some (race_number r), data_driver1 = Some (driver1 r),
      data_driver2 = Some (driver2 r), data_winner = Some (winner r),
      data_race_division = Some (race_division r), data_timestamp = Some (timestamp r),
      data_driver3 = driver3 r, data_race_type = Some (race_type r)\<rparr>"

definition Race_from_dict :: "string \<Rightarrow> race_data \<Rightarrow> py_error + race" where
  "Race_from_dict now data =
     (case (data_race_number data, data_driver1 data, data_driver2 data, data_winner data,
            data_race_division data) of
        (Some rn, Some d1, Some d2, Some w, Some dv) \<Rightarrow>
          Inr (Race now rn d1 d2 w dv (data_timestamp data) (data_driver3 data)
                 (get_default (data_race_type data) ''regular''))
      | _ \<Rightarrow> Inl TypeError)"

definition dict_map :: "('a \<Rightarrow> 'b) \<Rightarrow> 'a dict \<Rightarrow> 'b dict" where
  "dict_map f d = foldl (\<lambda>acc (k, v). AList.update k (f v) acc) [] d"

definition to_dict :: "tournament \<Rightarrow> tournament_data" where
  "to_dict s =
     \<lparr>snap_drivers = Some (dict_map Driver_to_dict (drivers s)),
      snap_races = Some (map Race_to_dict (race_log s)),
      snap_race_counter = Some (race_counter s)\<rparr>"

text \<open>
  \<open>from_dict\<close> assigns \<open>drivers\<close>, then \<open>races\<close>, then \<open>race_counter\<close>; an
  exception in a later line leaves the earlier assignments in place.
\<close>

definition from_dict :: "string \<Rightarrow> tournament_data \<Rightarrow> tournament \<Rightarrow> py_error option \<times> tournament" where
  "from_dict now data s =
     (case snap_drivers data of
        None \<Rightarrow> (Some KeyError, s)
      | Some dd \<Rightarrow>
          (case dict_comp Driver_from_dict dd [] of
             Inl e \<Rightarrow> (Some e, s)
           | Inr ds \<Rightarrow>
               (let s1 = s\<lparr>drivers := ds\<rparr> in
                case snap_races data of
                  None \<Rightarrow> (Some KeyError, s1)
                | Some rr \<Rightarrow>
                    (case list_comp (Race_from_dict now) rr of
                       Inl e \<Rightarrow> (Some e, s1)
                     | Inr rs \<Rightarrow>
                         (let s2 = s1\<lparr>race_log := rs\<rparr> in
                          (None, s2\<lparr>race_counter :=
                                       get_default (snap_race_counter data)
                                         (int (length (race_log s2)))\<rparr>))))))"

subsection \<open>The handlers that change drivers: \<open>update_driver\<close> and \<open>delete_driver\<close>\<close>

text \<open>
  \<open>update_driver\<close> reads \<open>name\<close> and \<open>division\<close> from the request body with
  \<open>data.get(key, '')\<close> and strips them. The driver object is renamed, moved to its
  new key when the name changed, and then given the new division in place.
\<close>

definition update_driver :: "string \<Rightarrow> string option \<Rightarrow> string option \<Rightarrow> tournament
    \<Rightarrow> (bool \<times> string) \<times> tournament" where
  "update_driver driver_name req_name req_division s =
     (let new_name = strip (get_default req_name []);
          new_division = strip (get_default req_division [])
      in
      if new_name = [] \<or> new_division = [] then
        ((False, ''Name and division are required''), s)
      else if new_division \<notin> set divisions then
        ((False, ''Invalid division: '' @ new_division), s)
      else
        (case map_of (drivers s) driver_name of
           None \<Rightarrow> ((False, ''Driver '' @ driver_name @ '' not found''), s)
         | Some d \<Rightarrow>
             if new_name \<noteq> driver_name \<and> has_key (drivers s) new_name then
               ((False, ''Driver '' @ new_name @ '' already exists''), s)
             else
               (let (d1, ds1) =
                      (if new_name \<noteq> driver_name then
                         (d\<lparr>name := new_name\<rparr>,
                          AList.update new_name (d\<lparr>name := new_name\<rparr>)
                            (AList.delete driver_name (drivers s)))
                       else (d, drivers s))
                in ((True, ''Driver updated successfully''),
                    s\<lparr>drivers := AList.update new_name (d1\<lparr>division := new_division\<rparr>) ds1\<rparr>))))"

definition delete_driver :: "string \<Rightarrow> tournament \<Rightarrow> (bool \<times> string) \<times> tournament" where
  "delete_driver driver_name s =
     (if \<not> has_key (drivers s) driver_name then
        ((False, ''Driver '' @ driver_name @ '' not found''), s)
      else
        ((True, ''Driver '' @ driver_name @ '' deleted successfully''),
         s\<lparr>drivers := AList.delete driver_name (drivers s)\<rparr>))"

subsection \<open>The states a manager can be in\<close>

text \<open>
  A manager starts empty and changes only through the operations above. The clock
  never reads the empty string.
\<close>

inductive reachable :: "tournament \<Rightarrow> bool" where
  init: "reachable TournamentManager"
| add: "reachable s \<Longrightarrow> reachable (snd (add_driver n dv s))"
| race: "reachable s \<Longrightarrow> now \<noteq> [] \<Longrightarrow> reachable (snd (record_race now a b w c rt s))"
| load: "reachable s \<Longrightarrow> now \<noteq> [] \<Longrightarrow> reachable (snd (from_dict now data s))"
| update: "reachable s \<Longrightarrow> reachable (snd (update_driver n rn rd s))"
| delete: "reachable s \<Longrightarrow> reachable (snd (delete_driver n s))"

text \<open>
  What every reachable manager satisfies: the keys of \<open>drivers\<close> are distinct, as
  the keys of a dictionary are, and no logged race has an empty timestamp, since
  \<open>Race.__init__\<close> replaces an empty one by the clock.
\<close>

definition well_formed :: "tournament \<Rightarrow> bool" where
  "well_formed s =
     (distinct (map fst (drivers s)) \<and> list_all (\<lambda>r. timestamp r \<noteq> []) (race_log s))"

subsection \<open>Sequences of race recordings\<close>

record race_call =
  call_now :: string
  call_driver1 :: string
  call_driver2 :: string
  call_winner :: string
  call_driver3 :: "string option"
  call_race_type :: string

definition call_race :: "race_call \<Rightarrow> tournament \<Rightarrow> outcome \<times> tournament" where
  "call_race c s =
     record_race (call_now c) (call_driver1 c) (call_driver2 c) (call_winner c)
       (call_driver3 c) (call_race_type c) s"

definition participants :: "race_call \<Rightarrow> string list" where
  "participants c = racing_drivers (call_driver1 c) (call_driver2 c) (call_driver3 c)"

definition succeeded :: "outcome \<Rightarrow> bool" where
  "succeeded out = (case out of Inr (ok, m) \<Rightarrow> ok | Inl e \<Rightarrow> False)"

fun record_all :: "tournament \<Rightarrow> race_call list \<Rightarrow> tournament" where
  "record_all s [] = s"
| "record_all s (c # cs) = record_all (snd (call_race c s)) cs"

text \<open>
  The tallies of a sequence of calls: the number of successful recordings, the
  participant slots of the successful recordings, and how many of those slots name
  the winner of their race.
\<close>

fun successes :: "tournament \<Rightarrow> race_call list \<Rightarrow> int" where
  "successes s [] = 0"
| "successes s (c # cs) =
     (if succeeded (fst (call_race c s)) then 1 else 0) + successes (snd (call_race c s)) cs"

fun slots :: "tournament \<Rightarrow> race_call list \<Rightarrow> int" where
  "slots s [] = 0"
| "slots s (c # cs) =
     (if succeeded (fst (call_race c s)) then int (length (participants c)) else 0)
       + slots (snd (call_race c s)) cs"

fun winner_slots :: "tournament \<Rightarrow> race_call list \<Rightarrow> int" where
  "winner_slots s [] = 0"
| "winner_slots s (c # cs) =
     (if succeeded (fst (call_race c s))
      then int (length (filter (\<lambda>n. n = call_winner c) (participants c))) else 0)
       + winner_slots (snd (call_race c s)) cs"

definition sum_wins :: "tournament \<Rightarrow> int" where
  "sum_wins s = sum_list (map wins (dict_values (drivers s)))"

definition sum_losses :: "tournament \<Rightarrow> int" where
  "sum_losses s = sum_list (map losses (dict_values (drivers s)))"

subsection \<open>Managers used as examples\<close>

text \<open>
  Two managers for the concrete cases below: one built with \<open>add_driver\<close>, and one
  loaded from a snapshot whose stored statuses do not follow from the losses (Dan has
  three losses and is stored as active, Eve has none and is stored as eliminated) and
  whose one race has neither timestamp nor race type, and which has no race counter.
\<close>

definition open_pair :: tournament where
  "open_pair =
     snd (add_driver ''Bob'' ''OPEN'' (snd (add_driver '' Alice '' ''OPEN'' TournamentManager)))"

definition snapshot_entry :: "string \<Rightarrow> string \<Rightarrow> int \<Rightarrow> int \<Rightarrow> string \<Rightarrow> string \<times> driver_data" where
  "snapshot_entry n dv w l st =
     (n, \<lparr>data_name = Some n, data_division = Some dv, data_wins = Some w, data_losses = Some l,
          data_races = None, data_status = Some st\<rparr>)"

definition paddock_snapshot :: tournament_data where
  "paddock_snapshot =
     \<lparr>snap_drivers = Some [snapshot_entry ''Alice'' ''OPEN'' 0 0 ACTIVE,
                           snapshot_entry ''Bob'' ''OPEN'' 0 0 INACTIVE,
                           snapshot_entry ''Cara'' ''DAMES'' 0 0 ACTIVE,
                           snapshot_entry ''Dan'' ''OPEN'' 0 3 ACTIVE,
                           snapshot_entry ''Eve'' ''OPEN'' 5 0 ELIMINATED],
      snap_races = Some [\<lparr>data_race_number = Some 7, data_driver1 = Some ''Eve'',
                          data_driver2 = Some ''Dan'', data_winner = Some ''Eve'',
                          data_race_division = Some ''OPEN'', data_timestamp = None,
                          data_driver3 = None, data_race_type = None\<rparr>],
      snap_race_counter = None\<rparr>"

definition paddock :: tournament where
  "paddock = snd (from_dict ''t0'' paddock_snapshot TournamentManager)"

text \<open>
  A third driver for three-way races, a race in which Alice is named in both slots,
  and a sequence of two successful recordings and one rejected one.
\<close>

definition open_trio :: tournament where
  "open_trio = snd (add_driver ''Cara'' ''OPEN'' open_pair)"

definition self_race :: race_call where
  "self_race = \<lparr>call_now = ''t1'', call_driver1 = ''Alice'', call_driver2 = ''Alice'',
                call_winner = ''Alice'', call_driver3 = None, call_race_type = ''regular''\<rparr>"

definition season :: "race_call list" where
  "season =
     [\<lparr>call_now = ''t1'', call_driver1 = ''Alice'', call_driver2 = ''Bob'',
       call_winner = ''Alice'', call_driver3 = None, call_race_type = ''regular''\<rparr>,
      \<lparr>call_now = ''t2'', call_driver1 = ''Alice'', call_driver2 = ''Bob'',
       call_winner = ''Cara'', call_driver3 = Some ''Cara'', call_race_type = ''championship''\<rparr>,
      \<lparr>call_now = ''t3'', call_driver1 = ''Alice'', call_driver2 = ''Bob'',
       call_winner = ''Zed'', call_driver3 = None, call_race_type = ''regular''\<rparr>]"

text \<open>
  A manager loaded from a snapshot with a negative loss count, whose win ratio
  \<open>2 ^ 1024 / 1\<close> is beyond the doubles, and the ranking that \<open>get_rankings\<close>
  returns for \<open>paddock\<close>.
\<close>

definition giant :: tournament where
  "giant =
     snd (from_dict ''t0''
            \<lparr>snap_drivers = Some [(''Big'', \<lparr>data_name = Some ''Big'', data_division = Some ''OPEN'',
                                              data_wins = Some (2 ^ 1024),
                                              data_losses = Some (1 - 2 ^ 1024),
                                              data_races = None, data_status = None\<rparr>)],
             snap_races = Some [], snap_race_counter = Some 0\<rparr>
            TournamentManager)"

definition paddock_ranking :: "ranking list" where
  "paddock_ranking =
     [\<lparr>rk_position = 1, rk_name = ''Alice'', rk_division = ''OPEN'', rk_wins = 0, rk_losses = 0,
       rk_total_races = 0, rk_win_ratio = 0, rk_status = ''ACTIVE''\<rparr>,
      \<lparr>rk_position = 2, rk_name = ''Bob'', rk_division = ''OPEN'', rk_wins = 0, rk_losses = 0,
       rk_total_races = 0, rk_win_ratio = 0, rk_status = ''INACTIVE''\<rparr>,
      \<lparr>rk_position = 3, rk_name = ''Cara'', rk_division = ''DAMES'', rk_wins = 0, rk_losses = 0,
       rk_total_races = 0, rk_win_ratio = 0, rk_status = ''ACTIVE''\<rparr>,
      \<lparr>rk_position = 4, rk_name = ''Dan'', rk_division = ''OPEN'', rk_wins = 0, rk_losses = 3,
       rk_total_races = 3, rk_win_ratio = 0, rk_status = ''ACTIVE''\<rparr>,
      \<lparr>rk_position = 5, rk_name = ''Eve'', rk_division = ''OPEN'', rk_wins = 5, rk_losses = 0,
       rk_total_races = 5, rk_win_ratio = 1, rk_status = ''ELIMINATED''\<rparr>]"

text \<open>A manager with the stored statuses blanked out: what is left when they are ignored.\<close>

definition without_status :: "tournament \<Rightarrow> (string \<times> driver) list \<times> race list \<times> int" where
  "without_status s =
     (map (\<lambda>(k, d). (k, d\<lparr>status := []\<rparr>)) (drivers s), race_log s, race_counter s)"

section \<open>Auxiliary facts\<close>

subsection \<open>The example managers, evaluated\<close>

lemmas strip_eval = strip_def lstrip_def rstrip_def is_space_def whitespace_def

lemma open_pair_eq:
  "open_pair = \<lparr>drivers = [(''Alice'', Driver ''Alice'' ''OPEN'' 0 0 [] ACTIVE),
                            (''Bob'', Driver ''Bob'' ''OPEN'' 0 0 [] ACTIVE)],
                 race_log = [], race_counter = 0\<rparr>"
  by (simp add: open_pair_def add_driver_def TournamentManager_def strip_eval
        has_key_def divisions_def Let_def)

lemma paddock_eq:
  "paddock = \<lparr>drivers = [(''Alice'', Driver ''Alice'' ''OPEN'' 0 0 [] ACTIVE),
                          (''Bob'', Driver ''Bob'' ''OPEN'' 0 0 [] INACTIVE),
                          (''Cara'', Driver ''Cara'' ''DAMES'' 0 0 [] ACTIVE),
                          (''Dan'', Driver ''Dan'' ''OPEN'' 0 3 [] ACTIVE),
                          (''Eve'', Driver ''Eve'' ''OPEN'' 5 0 [] ELIMINATED)],
               race_log = [\<lparr>race_number = 7, driver1 = ''Eve'', driver2 = ''Dan'', winner = ''Eve'',
                            race_division = ''OPEN'', timestamp = ''t0'', driver3 = None,
                            race_type = ''regular''\<rparr>],
               race_counter = 1\<rparr>"
  by (simp add: paddock_def paddock_snapshot_def from_dict_def snapshot_entry_def
        Driver_from_dict_def Race_from_dict_def Race_def get_default_def TournamentManager_def
        Let_def)

lemma str_int_1: "str_int 1 = ''1''"
  by (simp add: str_int_def str_nat.simps digit_char_def)

lemmas race_eval = record_race_def racing_drivers_def Driver_def is_eliminated_def
  Race_def add_race_result_def update_status_def Let_def

lemma record_losers_frame:
  "record_losers w ns s = (e, s') \<Longrightarrow>
     race_counter s' = race_counter s \<and> race_log s' = race_log s"
proof (induction ns arbitrary: s)
  case Nil
  then show ?case by simp
next
  case (Cons n ns)
  then show ?case by (auto split: if_splits option.splits)
qed

subsection \<open>The loser loop, and managers that differ in stored statuses\<close>

lemma has_key_update: "has_key (AList.update k v al) n \<longleftrightarrow> n = k \<or> has_key al n"
  by (simp add: has_key_def update_conv')

lemma record_losers_returns:
  "\<forall>n\<in>set ns. has_key (drivers s) n \<Longrightarrow> fst (record_losers w ns s) = None"
proof (induction ns arbitrary: s)
  case Nil
  then show ?case by simp
next
  case (Cons n ns)
  show ?case
  proof (cases "n = w")
    case True
    with Cons show ?thesis by simp
  next
    case False
    from Cons.prems obtain l where l: "map_of (drivers s) n = Some l"
      by (auto simp: has_key_def)
    let ?s = "s\<lparr>drivers := AList.update n (add_race_result l (race_counter s) False) (drivers s)\<rparr>"
    have "\<forall>m\<in>set ns. has_key (drivers ?s) m"
      using Cons.prems by (simp add: has_key_update)
    from Cons.IH [OF this] False l show ?thesis by simp
  qed
qed

lemma map_update_values:
  "map (\<lambda>(k, d). (k, f d)) (AList.update k v al) = AList.update k (f v) (map (\<lambda>(k, d). (k, f d)) al)"
  by (induction al) auto

lemma erased_lookup:
  assumes "map (\<lambda>(k, d). (k, f d)) al = map (\<lambda>(k, d). (k, f d)) al'"
  shows "rel_option (\<lambda>d d'. f d = f d') (map_of al k) (map_of al' k)"
proof -
  have "map_of (map (\<lambda>(k, d). (k, f d)) al) k = map_of (map (\<lambda>(k, d). (k, f d)) al') k"
    using assms by simp
  then have "map_option f (map_of al k) = map_option f (map_of al' k)"
    by (simp add: map_of_map)
  then show ?thesis
    by (cases "map_of al k"; cases "map_of al' k") auto
qed

lemma add_race_result_ignores_status:
  assumes "d\<lparr>status := x\<rparr> = d'\<lparr>status := x\<rparr>"
  shows "add_race_result d n b = add_race_result d' n b"
proof -
  from assms have "name d = name d' \<and> division d = division d' \<and> wins d = wins d'
      \<and> losses d = losses d' \<and> races d = races d' \<and> driver.more d = driver.more d'"
    by (cases d, cases d') simp
  then show ?thesis
    by (cases d, cases d')
       (simp add: add_race_result_def update_status_def is_eliminated_def Let_def)
qed

lemma erased_fields:
  assumes "d\<lparr>status := x\<rparr> = d'\<lparr>status := x\<rparr>"
  shows "division d = division d' \<and> losses d = losses d'"
proof -
  from assms have "division (d\<lparr>status := x\<rparr>) = division (d'\<lparr>status := x\<rparr>)"
    and "losses (d\<lparr>status := x\<rparr>) = losses (d'\<lparr>status := x\<rparr>)"
    by simp_all
  then show ?thesis by simp
qed

lemma record_losers_ignores_status:
  assumes "without_status s = without_status t"
  shows "fst (record_losers w ns s) = fst (record_losers w ns t)
       \<and> without_status (snd (record_losers w ns s)) = without_status (snd (record_losers w ns t))"
  using assms
proof (induction ns arbitrary: s t)
  case Nil
  then show ?case by simp
next
  case (Cons n ns)
  from Cons.prems have rc: "race_counter s = race_counter t"
    and ds: "map (\<lambda>(k, d). (k, d\<lparr>status := []\<rparr>)) (drivers s) = map (\<lambda>(k, d). (k, d\<lparr>status := []\<rparr>)) (drivers t)"
    and rl: "race_log s = race_log t"
    by (simp_all add: without_status_def)
  note lk = erased_lookup [OF ds, of n]
  show ?case
  proof (cases "n = w")
    case True
    with Cons.IH [OF Cons.prems] show ?thesis by simp
  next
    case False
    show ?thesis
    proof (cases "map_of (drivers s) n")
      case None
      with lk have "map_of (drivers t) n = None" by simp
      with None False Cons.prems show ?thesis by simp
    next
      case (Some l)
      with lk obtain l' where l': "map_of (drivers t) n = Some l'"
        and e: "l\<lparr>status := []\<rparr> = l'\<lparr>status := []\<rparr>" by (auto simp: option_rel_Some1)
      have same: "add_race_result l (race_counter s) False = add_race_result l' (race_counter t) False"
        using add_race_result_ignores_status [OF e] rc by simp
      let ?s = "s\<lparr>drivers := AList.update n (add_race_result l (race_counter s) False) (drivers s)\<rparr>"
      let ?t = "t\<lparr>drivers := AList.update n (add_race_result l' (race_counter t) False) (drivers t)\<rparr>"
      have "without_status ?s = without_status ?t"
        using rc rl ds same by (simp add: without_status_def map_update_values)
      from Cons.IH [OF this] False Some l' show ?thesis by simp
    qed
  qed
qed


lemma record_race_ignores_status:
  assumes "without_status s = without_status t"
  shows "fst (record_race now na nb w third rt s) = fst (record_race now na nb w third rt t)"
proof -
  from assms have rc: "race_counter s = race_counter t"
    and ds: "map (\<lambda>(k, d). (k, d\<lparr>status := []\<rparr>)) (drivers s) = map (\<lambda>(k, d). (k, d\<lparr>status := []\<rparr>)) (drivers t)"
    and rl: "race_log s = race_log t"
    by (simp_all add: without_status_def)
  show ?thesis
  proof (cases "map_of (drivers s) na")
    case None
    with erased_lookup [OF ds, of na] have "map_of (drivers t) na = None" by simp
    with None show ?thesis by (simp add: record_race_def)
  next
    case a: (Some a)
    with erased_lookup [OF ds, of na] obtain a' where a': "map_of (drivers t) na = Some a'"
      and ea: "a\<lparr>status := []\<rparr> = a'\<lparr>status := []\<rparr>" by (auto simp: option_rel_Some1)
    show ?thesis
    proof (cases "map_of (drivers s) nb")
      case None
      with erased_lookup [OF ds, of nb] have "map_of (drivers t) nb = None" by simp
      with None a a' show ?thesis by (simp add: record_race_def)
    next
      case b: (Some b)
      with erased_lookup [OF ds, of nb] obtain b' where b': "map_of (drivers t) nb = Some b'"
        and eb: "b\<lparr>status := []\<rparr> = b'\<lparr>status := []\<rparr>" by (auto simp: option_rel_Some1)
      note fa = erased_fields [OF ea] and fb = erased_fields [OF eb]
      show ?thesis
      proof (cases "w \<in> set (racing_drivers na nb third) \<and> division a = division b
                     \<and> \<not> is_eliminated a \<and> \<not> is_eliminated b")
        case False
        with a a' b b' fa fb show ?thesis
          by (auto simp: record_race_def is_eliminated_def)
      next
        case True
        define r where "r = Race now (race_counter s + 1) na nb w (division a) None third rt"
        define s2 where "s2 = s\<lparr>race_counter := race_counter s + 1, race_log := race_log s @ [r]\<rparr>"
        define t2 where "t2 = t\<lparr>race_counter := race_counter t + 1, race_log := race_log t @ [r]\<rparr>"
        have s2t2: "without_status s2 = without_status t2"
          using rc rl ds by (simp add: s2_def t2_def without_status_def)
        show ?thesis
        proof (cases "map_of (drivers s) w")
          case None
          with erased_lookup [OF ds, of w] have "map_of (drivers t) w = None" by simp
          with None a a' b b' fa fb True show ?thesis
            by (simp add: record_race_def is_eliminated_def Let_def)
        next
          case (Some x)
          with erased_lookup [OF ds, of w] obtain x' where x': "map_of (drivers t) w = Some x'"
            and ex: "x\<lparr>status := []\<rparr> = x'\<lparr>status := []\<rparr>" by (auto simp: option_rel_Some1)
          define s3 where "s3 = s2\<lparr>drivers := AList.update w (add_race_result x (race_counter s2) True) (drivers s2)\<rparr>"
          define t3 where "t3 = t2\<lparr>drivers := AList.update w (add_race_result x' (race_counter t2) True) (drivers t2)\<rparr>"
          have "add_race_result x (race_counter s2) True = add_race_result x' (race_counter t2) True"
            using add_race_result_ignores_status [OF ex] rc by (simp add: s2_def t2_def)
          then have "without_status s3 = without_status t3"
            using rc rl ds by (simp add: s3_def t3_def s2_def t2_def without_status_def map_update_values)
          from record_losers_ignores_status [OF this, of w "racing_drivers na nb third"]
          have L: "fst (record_losers w (racing_drivers na nb third) s3)
                 = fst (record_losers w (racing_drivers na nb third) t3)"
            and R: "race_counter (snd (record_losers w (racing_drivers na nb third) s3))
                 = race_counter (snd (record_losers w (racing_drivers na nb third) t3))"
            by (simp_all add: without_status_def)
          have S: "record_race now na nb w third rt s =
             (case record_losers w (racing_drivers na nb third) s3 of
                (Some e, s4) \<Rightarrow> (Inl e, s4)
              | (None, s4) \<Rightarrow> (Inr (True, ''Race '' @ str_int (race_counter s4) @ '': '' @ w @ '' wins!''), s4))"
            using a b True Some
            by (simp add: record_race_def Let_def s3_def s2_def r_def)
          have T: "record_race now na nb w third rt t =
             (case record_losers w (racing_drivers na nb third) t3 of
                (Some e, s4) \<Rightarrow> (Inl e, s4)
              | (None, s4) \<Rightarrow> (Inr (True, ''Race '' @ str_int (race_counter s4) @ '': '' @ w @ '' wins!''), s4))"
            using a' b' True x' fa fb rc
            by (simp add: record_race_def Let_def t3_def t2_def r_def is_eliminated_def)
          show ?thesis
            unfolding S T using L R
            by (cases "record_losers w (racing_drivers na nb third) s3";
                cases "record_losers w (racing_drivers na nb third) t3")
               (auto split: option.splits)
        qed
      qed
    qed
  qed
qed

lemma record_race_passes:
  assumes a: "map_of (drivers s) na = Some a" and b: "map_of (drivers s) nb = Some b"
    and w: "w \<in> set (racing_drivers na nb third)" and dv: "division a = division b"
    and la: "losses a < 3" and lb: "losses b < 3"
  shows "\<forall>m. fst (record_race now na nb w third rt s) \<noteq> Inr (False, m)"
    and "\<forall>n\<in>set (racing_drivers na nb third). has_key (drivers s) n \<Longrightarrow>
           \<exists>m. fst (record_race now na nb w third rt s) = Inr (True, m)"
proof -
  define r where "r = Race now (race_counter s + 1) na nb w (division a) None third rt"
  define s2 where "s2 = s\<lparr>race_counter := race_counter s + 1, race_log := race_log s @ [r]\<rparr>"
  have S: "record_race now na nb w third rt s =
     (case map_of (drivers s) w of
        None \<Rightarrow> (Inl KeyError, s2)
      | Some x \<Rightarrow>
         (case record_losers w (racing_drivers na nb third)
                 (s2\<lparr>drivers := AList.update w (add_race_result x (race_counter s2) True) (drivers s2)\<rparr>) of
            (Some e, s4) \<Rightarrow> (Inl e, s4)
          | (None, s4) \<Rightarrow> (Inr (True, ''Race '' @ str_int (race_counter s4) @ '': '' @ w @ '' wins!''), s4)))"
    using a b w dv la lb
    by (cases "map_of (drivers s) w")
       (simp_all add: record_race_def Let_def s2_def r_def is_eliminated_def)
  show "\<forall>m. fst (record_race now na nb w third rt s) \<noteq> Inr (False, m)"
    unfolding S by (auto split: option.splits prod.splits)
  assume keys: "\<forall>n\<in>set (racing_drivers na nb third). has_key (drivers s) n"
  with w obtain x where x: "map_of (drivers s) w = Some x"
    by (auto simp: has_key_def)
  let ?s3 = "s2\<lparr>drivers := AList.update w (add_race_result x (race_counter s2) True) (drivers s2)\<rparr>"
  have "\<forall>n\<in>set (racing_drivers na nb third). has_key (drivers ?s3) n"
    using keys by (simp add: has_key_update s2_def)
  from record_losers_returns [OF this, of w]
  show "\<exists>m. fst (record_race now na nb w third rt s) = Inr (True, m)"
    unfolding S using x by (auto split: prod.splits)
qed

subsection \<open>Rankings: the value, the error and the sort\<close>

lemma win_ratio_cases:
  "win_ratio fl d = (if overflows d then Inl OverflowError else Inr (ratio fl d))"
  by (auto simp: win_ratio_def true_div_def total_races_def overflows_def ratio_def)

lemma list_comp_total:
  "\<forall>x\<in>set xs. f x = Inr (g x) \<Longrightarrow> list_comp f xs = Inr (map g xs)"
  by (induction xs) simp_all

lemma list_comp_raises:
  "\<exists>x\<in>set xs. f x = Inl e \<Longrightarrow> \<forall>x\<in>set xs. f x = Inl e \<or> (\<exists>y. f x = Inr y) \<Longrightarrow>
     list_comp f xs = Inl e"
proof (induction xs)
  case Nil
  then show ?case by simp
next
  case (Cons x xs)
  show ?case
  proof (cases "f x")
    case (Inl e')
    with Cons.prems(2) show ?thesis by auto
  next
    case (Inr y)
    with Cons.prems have "\<exists>x\<in>set xs. f x = Inl e" and "\<forall>x\<in>set xs. f x = Inl e \<or> (\<exists>y. f x = Inr y)"
      by auto
    from Cons.IH [OF this] Inr show ?thesis by simp
  qed
qed

lemma insort_key_map:
  "insort_key f (h x) (map h ys) = map h (insort_key (\<lambda>y. f (h y)) x ys)"
  by (induction ys) simp_all

lemma sort_key_map: "sort_key f (map h xs) = map h (sort_key (\<lambda>y. f (h y)) xs)"
  by (induction xs) (simp_all add: insort_key_map)

lemma list_sort_total:
  assumes "\<forall>x\<in>set xs. key x = Inr (g x)"
  shows "list_sort key xs = Inr (sort_key g xs)"
proof -
  have "zip (map g xs) xs = map (\<lambda>x. (g x, x)) xs"
    by (induction xs) simp_all
  then have "map snd (sort_key fst (zip (map g xs) xs)) = sort_key g xs"
    by (simp add: sort_key_map comp_def)
  with list_comp_total [OF assms] show ?thesis
    by (simp add: list_sort_def)
qed


lemma ranking_key_cases:
  "ranking_key fl d
     = (if overflows d then Inl OverflowError
        else Inr (status d = ELIMINATED, - wins d, - ratio fl d, losses d))"
  by (simp add: ranking_key_def win_ratio_cases)

lemma rank_record_cases:
  "rank_record fl pos d
     = (if overflows d then Inl OverflowError
        else Inr \<lparr>rk_position = pos, rk_name = name d, rk_division = division d,
                  rk_wins = wins d, rk_losses = losses d, rk_total_races = wins d + losses d,
                  rk_win_ratio = ratio fl d, rk_status = status d\<rparr>)"
  by (simp add: rank_record_def win_ratio_cases total_races_def)

lemma float_limit_gt_1: "1 < float_limit"
proof -
  have "(2::real) ^ 970 * 2 \<le> 2 ^ 970 * 2 ^ 54"
    by (rule mult_left_mono) simp_all
  then have "(2::real) ^ 970 * 2 \<le> 2 ^ 1024"
    by (simp only: power_add [symmetric]) simp
  moreover have "(2::real) ^ 1 \<le> 2 ^ 970"
    by (rule power_increasing) simp_all
  then have "(2::real) \<le> 2 ^ 970"
    by (simp only: power_one_right)
  ultimately show ?thesis
    unfolding float_limit_def by linarith
qed

lemma ratio_below_limit:
  fixes w l :: int
  assumes "0 \<le> w" and "0 \<le> l" and "0 < w + l"
  shows "\<bar>real_of_int w / real_of_int (w + l)\<bar> < float_limit"
proof -
  have "real_of_int w \<le> real_of_int (w + l)"
    using assms by simp
  then have "real_of_int w / real_of_int (w + l) \<le> 1"
    using assms(3) by (simp add: divide_le_eq_1)
  moreover have "0 \<le> real_of_int w / real_of_int (w + l)"
    using assms by simp
  ultimately have "\<bar>real_of_int w / real_of_int (w + l)\<bar> \<le> 1"
    by (simp only: abs_of_nonneg)
  with float_limit_gt_1 show ?thesis by linarith
qed


lemma counters_never_overflow:
  assumes "0 \<le> wins d" and "0 \<le> losses d"
  shows "\<not> overflows d"
  using ratio_below_limit [OF assms] by (auto simp: overflows_def)

lemma enumerate_member: "(i, d) \<in> set (enumerate n xs) \<Longrightarrow> d \<in> set xs"
  by (auto simp: enumerate_eq_zip dest: set_zip_rightD)

lemma drivers_to_rank_alt:
  "drivers_to_rank s dv
     = filter (\<lambda>d. case dv of None \<Rightarrow> True | Some x \<Rightarrow> division d = x) (map snd (drivers s))"
  by (simp add: drivers_to_rank_def dict_values_def in_division_def [abs_def])

lemma get_rankings_raises:
  assumes "\<exists>d\<in>set (drivers_to_rank s dv). overflows d"
  shows "get_rankings fl s dv = Inl OverflowError"
proof -
  have "list_comp (ranking_key fl) (drivers_to_rank s dv) = Inl OverflowError"
    by (rule list_comp_raises) (use assms in \<open>auto simp: ranking_key_cases\<close>)
  then show ?thesis
    by (simp add: get_rankings_def list_sort_def)
qed

lemma get_rankings_returns:
  assumes "\<not> (\<exists>d\<in>set (drivers_to_rank s dv). overflows d)"
  shows "get_rankings fl s dv
     = Inr (map (\<lambda>(i, d). \<lparr>rk_position = int i, rk_name = name d, rk_division = division d,
                   rk_wins = wins d, rk_losses = losses d, rk_total_races = wins d + losses d,
                   rk_win_ratio = ratio fl d, rk_status = status d\<rparr>)
              (enumerate 1 (sort_key (\<lambda>d. (status d = ELIMINATED, - wins d, - ratio fl d, losses d))
                              (drivers_to_rank s dv))))"
proof -
  let ?key = "\<lambda>d. (status d = ELIMINATED, - wins d, - ratio fl d, losses d)"
  let ?ds = "sort_key ?key (drivers_to_rank s dv)"
  have "\<forall>d\<in>set (drivers_to_rank s dv). ranking_key fl d = Inr (?key d)"
    using assms by (simp add: ranking_key_cases)
  then have sorted: "list_sort (ranking_key fl) (drivers_to_rank s dv) = Inr ?ds"
    by (rule list_sort_total)
  have "\<forall>p\<in>set (enumerate 1 ?ds). (\<lambda>(i, d). rank_record fl (int i) d) p
      = Inr ((\<lambda>(i, d). \<lparr>rk_position = int i, rk_name = name d, rk_division = division d,
                   rk_wins = wins d, rk_losses = losses d, rk_total_races = wins d + losses d,
                   rk_win_ratio = ratio fl d, rk_status = status d\<rparr>) p)"
    using assms by (auto simp: rank_record_cases dest!: enumerate_member)
  from list_comp_total [OF this] sorted show ?thesis
    by (simp add: get_rankings_def)
qed

lemma get_rankings_characterised:
  "((\<exists>d\<in>set (drivers_to_rank s dv). overflows d) \<longrightarrow> get_rankings fl s dv = Inl OverflowError)
   \<and> (\<not> (\<exists>d\<in>set (drivers_to_rank s dv). overflows d) \<longrightarrow>
        (\<exists>ds. get_rankings fl s dv
                = Inr (map (\<lambda>(i, d). \<lparr>rk_position = int i, rk_name = name d,
                              rk_division = division d, rk_wins = wins d, rk_losses = losses d,
                              rk_total_races = wins d + losses d, rk_win_ratio = ratio fl d,
                              rk_status = status d\<rparr>)
                         (enumerate 1 ds))
            \<and> sorted (map (\<lambda>d. (status d = ELIMINATED, - wins d, - ratio fl d, losses d)) ds)
            \<and> (\<forall>k. filter (\<lambda>d. (status d = ELIMINATED, - wins d, - ratio fl d, losses d) = k) ds
                   = filter (\<lambda>d. (status d = ELIMINATED, - wins d, - ratio fl d, losses d) = k)
                       (drivers_to_rank s dv))))
   \<and> ((\<forall>d\<in>set (drivers_to_rank s dv). 0 \<le> wins d \<and> 0 \<le> losses d)
        \<longrightarrow> \<not> (\<exists>d\<in>set (drivers_to_rank s dv). overflows d))"
proof (intro conjI impI)
  assume "\<exists>d\<in>set (drivers_to_rank s dv). overflows d"
  then show "get_rankings fl s dv = Inl OverflowError"
    by (rule get_rankings_raises)
next
  let ?key = "\<lambda>d. (status d = ELIMINATED, - wins d, - ratio fl d, losses d)"
  assume "\<not> (\<exists>d\<in>set (drivers_to_rank s dv). overflows d)"
  note ret = get_rankings_returns [OF this, of fl]
  show "\<exists>ds. get_rankings fl s dv
                = Inr (map (\<lambda>(i, d). \<lparr>rk_position = int i, rk_name = name d,
                              rk_division = division d, rk_wins = wins d, rk_losses = losses d,
                              rk_total_races = wins d + losses d, rk_win_ratio = ratio fl d,
                              rk_status = status d\<rparr>)
                         (enumerate 1 ds))
            \<and> sorted (map ?key ds)
            \<and> (\<forall>k. filter (\<lambda>d. ?key d = k) ds = filter (\<lambda>d. ?key d = k) (drivers_to_rank s dv))"
  proof (intro exI conjI allI)
    show "get_rankings fl s dv
                = Inr (map (\<lambda>(i, d). \<lparr>rk_position = int i, rk_name = name d,
                              rk_division = division d, rk_wins = wins d, rk_losses = losses d,
                              rk_total_races = wins d + losses d, rk_win_ratio = ratio fl d,
                              rk_status = status d\<rparr>)
                         (enumerate 1 (sort_key ?key (drivers_to_rank s dv))))"
      by (rule ret)
    show "sorted (map ?key (sort_key ?key (drivers_to_rank s dv)))"
      by (rule sorted_sort_key)
    show "filter (\<lambda>d. ?key d = k) (sort_key ?key (drivers_to_rank s dv))
        = filter (\<lambda>d. ?key d = k) (drivers_to_rank s dv)" for k
      by (rule sort_key_stable)
  qed
next
  assume "\<forall>d\<in>set (drivers_to_rank s dv). 0 \<le> wins d \<and> 0 \<le> losses d"
  then show "\<not> (\<exists>d\<in>set (drivers_to_rank s dv). overflows d)"
    using counters_never_overflow by blast
qed

lemma giant_eq:
  "giant = \<lparr>drivers = [(''Big'', Driver ''Big'' ''OPEN'' (2 ^ 1024) (1 - 2 ^ 1024) [] ACTIVE)],
             race_log = [], race_counter = 0\<rparr>"
  by (simp add: giant_def from_dict_def Driver_from_dict_def get_default_def
        TournamentManager_def Let_def del: power_numeral)

lemmas rankings_eval = get_rankings_def list_sort_def drivers_to_rank_def dict_values_def
  in_division_def ranking_key_def rank_record_def win_ratio_def true_div_def float_limit_def
  total_races_def Driver_def enumerate_eq_zip ACTIVE_def INACTIVE_def ELIMINATED_def

lemma paddock_ranked: "get_rankings (\<lambda>x. x) paddock None = Inr paddock_ranking"
  by (simp add: paddock_eq rankings_eval paddock_ranking_def)

subsection \<open>Comprehensions over a snapshot\<close>

lemma set_update_subset: "set (AList.update k v al) \<subseteq> insert (k, v) (set al)"
  by (induction al) auto

lemma dict_comp_entries:
  "dict_comp f dd acc = Inr ds \<Longrightarrow>
     \<forall>(k, d)\<in>set ds. (k, d) \<in> set acc \<or> (\<exists>x. (k, x) \<in> set dd \<and> f x = Inr d)"
proof (induction dd arbitrary: acc)
  case Nil
  then show ?case by auto
next
  case (Cons p dd)
  obtain k x where p: "p = (k, x)" by (cases p)
  from Cons.prems p obtain v where v: "f x = Inr v"
    and rest: "dict_comp f dd (AList.update k v acc) = Inr ds"
    by (auto split: sum.splits)
  from Cons.IH [OF rest] set_update_subset [of k v acc] v p
  show ?case by fastforce
qed

lemma dict_comp_keys:
  "dict_comp f dd acc = Inr ds \<Longrightarrow> fst ` set ds = fst ` set acc \<union> fst ` set dd"
proof (induction dd arbitrary: acc)
  case Nil
  then show ?case by simp
next
  case (Cons p dd)
  obtain k x where p: "p = (k, x)" by (cases p)
  from Cons.prems p obtain v where v: "f x = Inr v"
    and rest: "dict_comp f dd (AList.update k v acc) = Inr ds"
    by (auto split: sum.splits)
  from Cons.IH [OF rest] p show ?case
    by (auto simp: dom_update)
qed

lemma list_comp_all2:
  "list_comp f xs = Inr ys \<Longrightarrow> list_all2 (\<lambda>y x. f x = Inr y) ys xs"
proof (induction xs arbitrary: ys)
  case Nil
  then show ?case by simp
next
  case (Cons x xs)
  then show ?case by (auto split: sum.splits)
qed

lemma Driver_from_dict_fields:
  "Driver_from_dict x = Inr d \<Longrightarrow>
     data_name x = Some (name d) \<and> data_division x = Some (division d)
     \<and> wins d = (case data_wins x of None \<Rightarrow> 0 | Some w \<Rightarrow> w)
     \<and> losses d = (case data_losses x of None \<Rightarrow> 0 | Some l \<Rightarrow> l)
     \<and> races d = (case data_races x of None \<Rightarrow> [] | Some rs \<Rightarrow> rs)
     \<and> status d = (case data_status x of None \<Rightarrow> ACTIVE | Some st \<Rightarrow> st)"
  by (auto simp: Driver_from_dict_def Driver_def get_default_def split: option.splits)

lemma Race_from_dict_fields:
  "Race_from_dict now x = Inr r \<Longrightarrow>
     data_race_number x = Some (race_number r) \<and> data_driver1 x = Some (driver1 r)
     \<and> data_driver2 x = Some (driver2 r) \<and> data_winner x = Some (winner r)
     \<and> data_race_division x = Some (race_division r)
     \<and> timestamp r = (case data_timestamp x of None \<Rightarrow> now | Some t \<Rightarrow> if t = [] then now else t)
     \<and> driver3 r = data_driver3 x
     \<and> race_type r = (case data_race_type x of None \<Rightarrow> ''regular'' | Some t \<Rightarrow> t)"
  by (auto simp: Race_from_dict_def Race_def get_default_def split: option.splits)

lemma paddock_loaded: "from_dict ''t0'' paddock_snapshot TournamentManager = (None, paddock)"
  by (simp add: paddock_def paddock_snapshot_def from_dict_def snapshot_entry_def
        Driver_from_dict_def Race_from_dict_def Race_def get_default_def TournamentManager_def
        Let_def)

subsection \<open>Export followed by import, and what reachable managers satisfy\<close>

lemma update_new_key: "k \<notin> fst ` set al \<Longrightarrow> AList.update k v al = al @ [(k, v)]"
  by (induction al) auto

lemma dict_comp_distinct:
  "distinct (map fst acc) \<Longrightarrow> dict_comp f dd acc = Inr ds \<Longrightarrow> distinct (map fst ds)"
proof (induction dd arbitrary: acc)
  case Nil
  then show ?case by simp
next
  case (Cons p dd)
  obtain k x where p: "p = (k, x)" by (cases p)
  from Cons.prems p obtain v where "dict_comp f dd (AList.update k v acc) = Inr ds"
    by (auto split: sum.splits)
  with Cons.IH [of "AList.update k v acc"] Cons.prems(1) show ?case
    by (simp add: distinct_update)
qed

lemma dict_comp_fresh:
  assumes "distinct (map fst dd)" and "fst ` set acc \<inter> fst ` set dd = {}"
    and "\<forall>(k, x)\<in>set dd. f x = Inr (g x)"
  shows "dict_comp f dd acc = Inr (acc @ map (\<lambda>(k, x). (k, g x)) dd)"
  using assms
proof (induction dd arbitrary: acc)
  case Nil
  then show ?case by simp
next
  case (Cons p dd)
  obtain k x where p: "p = (k, x)" by (cases p)
  from Cons.prems p have fx: "f x = Inr (g x)" and k: "k \<notin> fst ` set acc"
    and k': "k \<notin> fst ` set dd" and d: "distinct (map fst dd)"
    and rest: "\<forall>(k, x)\<in>set dd. f x = Inr (g x)"
    and disj: "fst ` set acc \<inter> fst ` set dd = {}"
    by auto
  have upd: "AList.update k (g x) acc = acc @ [(k, g x)]"
    by (rule update_new_key [OF k])
  have "fst ` set (acc @ [(k, g x)]) \<inter> fst ` set dd = {}"
    using disj k' by auto
  from Cons.IH [OF d this rest] p fx upd show ?case by simp
qed

lemma dict_map_fresh:
  assumes "distinct (map fst d)" and "fst ` set acc \<inter> fst ` set d = {}"
  shows "foldl (\<lambda>acc (k, v). AList.update k (f v) acc) acc d = acc @ map (\<lambda>(k, v). (k, f v)) d"
  using assms
proof (induction d arbitrary: acc)
  case Nil
  then show ?case by simp
next
  case (Cons p d)
  obtain k x where p: "p = (k, x)" by (cases p)
  from Cons.prems p have k: "k \<notin> fst ` set acc"
    and k': "k \<notin> fst ` set d" and dd: "distinct (map fst d)"
    and disj: "fst ` set acc \<inter> fst ` set d = {}"
    by auto
  have upd: "AList.update k (f x) acc = acc @ [(k, f x)]"
    by (rule update_new_key [OF k])
  have "fst ` set (acc @ [(k, f x)]) \<inter> fst ` set d = {}"
    using disj k' by auto
  from Cons.IH [OF dd this] p upd show ?case by simp
qed

lemma dict_map_distinct:
  "distinct (map fst d) \<Longrightarrow> dict_map f d = map (\<lambda>(k, v). (k, f v)) d"
  using dict_map_fresh [of d "[]" f] by (simp add: dict_map_def)

lemma Driver_roundtrip: "Driver_from_dict (Driver_to_dict d) = Inr d"
  by (simp add: Driver_from_dict_def Driver_to_dict_def Driver_def get_default_def)

lemma Race_roundtrip: "timestamp r \<noteq> [] \<Longrightarrow> Race_from_dict now (Race_to_dict r) = Inr r"
  by (simp add: Race_from_dict_def Race_to_dict_def Race_def get_default_def)

lemma list_comp_roundtrip:
  "list_all (\<lambda>r. timestamp r \<noteq> []) rs \<Longrightarrow> list_comp (Race_from_dict now) (map Race_to_dict rs) = Inr rs"
  by (induction rs) (simp_all add: Race_roundtrip)

lemma drivers_roundtrip:
  assumes "distinct (map fst ds)"
  shows "dict_comp Driver_from_dict (dict_map Driver_to_dict ds) [] = Inr ds"
proof -
  let ?dd = "map (\<lambda>(k, v). (k, Driver_to_dict v)) ds"
  have keys: "map fst ?dd = map fst ds"
    by (induction ds) auto
  have each: "\<forall>(k, x)\<in>set ?dd. Driver_from_dict x = Inr (projr (Driver_from_dict x))"
    by (auto simp: Driver_roundtrip)
  have "dict_comp Driver_from_dict ?dd []
      = Inr ([] @ map (\<lambda>(k, x). (k, projr (Driver_from_dict x))) ?dd)"
  proof (rule dict_comp_fresh [OF _ _ each])
    show "distinct (map fst ?dd)"
      using assms by (simp only: keys)
    show "fst ` set [] \<inter> fst ` set ?dd = {}"
      by simp
  qed
  also have "map (\<lambda>(k, x). (k, projr (Driver_from_dict x))) ?dd = ds"
    by (induction ds) (auto simp: Driver_roundtrip)
  finally show ?thesis
    using assms by (simp add: dict_map_distinct)
qed

lemma roundtrip_well_formed:
  assumes "well_formed s"
  shows "from_dict now (to_dict s) s0 = (None, s)"
    and "from_dict now ((to_dict s)\<lparr>snap_race_counter := None\<rparr>) s0
           = (None, s\<lparr>race_counter := int (length (race_log s))\<rparr>)"
proof -
  from assms have d: "distinct (map fst (drivers s))"
    and t: "list_all (\<lambda>r. timestamp r \<noteq> []) (race_log s)"
    by (simp_all add: well_formed_def)
  note dr = drivers_roundtrip [OF d] and rr = list_comp_roundtrip [OF t, of now]
  show "from_dict now (to_dict s) s0 = (None, s)"
    by (simp add: from_dict_def to_dict_def dr rr get_default_def Let_def)
  show "from_dict now ((to_dict s)\<lparr>snap_race_counter := None\<rparr>) s0
           = (None, s\<lparr>race_counter := int (length (race_log s))\<rparr>)"
    by (simp add: from_dict_def to_dict_def dr rr get_default_def Let_def)
qed


lemma add_driver_well_formed:
  "well_formed s \<Longrightarrow> well_formed (snd (add_driver n dv s))"
  by (simp add: add_driver_def well_formed_def Let_def distinct_update)

lemma record_losers_well_formed:
  "well_formed s \<Longrightarrow> well_formed (snd (record_losers w ns s))"
proof (induction ns arbitrary: s)
  case Nil
  then show ?case by simp
next
  case (Cons n ns)
  show ?case
  proof (cases "n \<noteq> w \<and> map_of (drivers s) n \<noteq> None")
    case True
    then obtain l where l: "map_of (drivers s) n = Some l" by auto
    let ?s = "s\<lparr>drivers := AList.update n (add_race_result l (race_counter s) False) (drivers s)\<rparr>"
    have "well_formed ?s"
      using Cons.prems by (simp add: well_formed_def distinct_update)
    from Cons.IH [OF this] True l show ?thesis by simp
  next
    case False
    with Cons.IH [OF Cons.prems] Cons.prems show ?thesis by auto
  qed
qed

lemma record_race_well_formed:
  assumes "well_formed s" and "now \<noteq> []"
  shows "well_formed (snd (record_race now na nb w third rt s))"
proof (cases "\<exists>a b. map_of (drivers s) na = Some a \<and> map_of (drivers s) nb = Some b
    \<and> w \<in> set (racing_drivers na nb third) \<and> division a = division b
    \<and> \<not> is_eliminated a \<and> \<not> is_eliminated b")
  case False
  then have "snd (record_race now na nb w third rt s) = s"
    by (auto simp: record_race_def split: option.splits)
  with assms show ?thesis by simp
next
  case True
  then obtain a b where a: "map_of (drivers s) na = Some a" and b: "map_of (drivers s) nb = Some b"
    and ok: "w \<in> set (racing_drivers na nb third)" "division a = division b"
      "\<not> is_eliminated a" "\<not> is_eliminated b"
    by blast
  define r where "r = Race now (race_counter s + 1) na nb w (division a) None third rt"
  define s2 where "s2 = s\<lparr>race_counter := race_counter s + 1, race_log := race_log s @ [r]\<rparr>"
  have wf2: "well_formed s2"
    using assms by (simp add: s2_def r_def well_formed_def Race_def)
  show ?thesis
  proof (cases "map_of (drivers s) w")
    case None
    with a b ok have "snd (record_race now na nb w third rt s) = s2"
      by (simp add: record_race_def Let_def s2_def r_def)
    with wf2 show ?thesis by simp
  next
    case (Some x)
    let ?s3 = "s2\<lparr>drivers := AList.update w (add_race_result x (race_counter s2) True) (drivers s2)\<rparr>"
    have "well_formed ?s3"
      using wf2 by (simp add: well_formed_def distinct_update)
    then have wf4: "well_formed (snd (record_losers w (racing_drivers na nb third) ?s3))"
      by (rule record_losers_well_formed)
    have "snd (record_race now na nb w third rt s)
        = snd (record_losers w (racing_drivers na nb third) ?s3)"
      using a b ok Some
      by (simp add: record_race_def Let_def s2_def r_def split: prod.splits option.splits)
    with wf4 show ?thesis by simp
  qed
qed

lemma list_comp_timestamps:
  "list_comp (Race_from_dict now) rr = Inr rs \<Longrightarrow> now \<noteq> [] \<Longrightarrow>
     list_all (\<lambda>r. timestamp r \<noteq> []) rs"
proof (induction rr arbitrary: rs)
  case Nil
  then show ?case by simp
next
  case (Cons x rr)
  from Cons.prems(1) obtain r rs' where r: "Race_from_dict now x = Inr r"
    and rest: "list_comp (Race_from_dict now) rr = Inr rs'" and rs: "rs = r # rs'"
    by (auto split: sum.splits)
  from Race_from_dict_fields [OF r] Cons.prems(2) have "timestamp r \<noteq> []"
    by (auto split: option.splits if_splits)
  with Cons.IH [OF rest Cons.prems(2)] rs show ?case by simp
qed

lemma from_dict_well_formed:
  assumes "well_formed s" and "now \<noteq> []"
  shows "well_formed (snd (from_dict now data s))"
proof -
  have "snd (from_dict now data s) = s
      \<or> (\<exists>ds dd. dict_comp Driver_from_dict dd [] = Inr ds
            \<and> (snd (from_dict now data s) = s\<lparr>drivers := ds\<rparr>
               \<or> (\<exists>rs rr c. list_comp (Race_from_dict now) rr = Inr rs
                     \<and> snd (from_dict now data s)
                         = s\<lparr>drivers := ds, race_log := rs, race_counter := c\<rparr>)))"
    by (auto simp: from_dict_def Let_def split: option.splits sum.splits)
  then show ?thesis
  proof (elim disjE exE conjE)
    assume "snd (from_dict now data s) = s"
    with assms show ?thesis by simp
  next
    fix ds dd
    assume ds: "dict_comp Driver_from_dict dd [] = Inr ds"
      and eq: "snd (from_dict now data s) = s\<lparr>drivers := ds\<rparr>"
    from dict_comp_distinct [OF _ ds] have "distinct (map fst ds)" by simp
    with assms eq show ?thesis by (simp add: well_formed_def)
  next
    fix ds dd rs rr c
    assume ds: "dict_comp Driver_from_dict dd [] = Inr ds"
      and rs: "list_comp (Race_from_dict now) rr = Inr rs"
      and eq: "snd (from_dict now data s) = s\<lparr>drivers := ds, race_log := rs, race_counter := c\<rparr>"
    from dict_comp_distinct [OF _ ds] have "distinct (map fst ds)" by simp
    with list_comp_timestamps [OF rs assms(2)] eq show ?thesis
      by (simp add: well_formed_def)
  qed
qed

lemma update_driver_well_formed:
  "well_formed s \<Longrightarrow> well_formed (snd (update_driver n rn rd s))"
  by (auto simp: update_driver_def well_formed_def Let_def distinct_update distinct_delete
        split: option.splits)

lemma delete_driver_well_formed:
  "well_formed s \<Longrightarrow> well_formed (snd (delete_driver n s))"
  by (simp add: delete_driver_def well_formed_def distinct_delete)

lemma reachable_well_formed: "reachable s \<Longrightarrow> well_formed s"
proof (induction rule: reachable.induct)
  case init
  show ?case by (simp add: well_formed_def TournamentManager_def)
next
  case (add s n dv)
  then show ?case by (simp add: add_driver_well_formed)
next
  case (race s now a b w c rt)
  then show ?case by (simp add: record_race_well_formed)
next
  case (load s now data)
  then show ?case by (simp add: from_dict_well_formed)
next
  case (update s n rn rd)
  then show ?case by (simp add: update_driver_well_formed)
next
  case (delete s n)
  then show ?case by (simp add: delete_driver_well_formed)
qed

subsection \<open>Sums of wins and losses\<close>

lemma sum_update:
  fixes f :: "'v \<Rightarrow> int"
  shows "map_of al k = Some v \<Longrightarrow>
     sum_list (map f (map snd (AList.update k v' al))) = sum_list (map f (map snd al)) - f v + f v'"
  by (induction al) (auto split: if_splits)

lemma add_race_result_counts:
  "wins (add_race_result d n won) = wins d + (if won then 1 else 0)"
  "losses (add_race_result d n won) = losses d + (if won then 0 else 1)"
  by (simp_all add: add_race_result_def update_status_def Let_def)

lemma charge_sums:
  assumes "map_of (drivers s) k = Some d"
  shows "sum_wins (s\<lparr>drivers := AList.update k (add_race_result d n won) (drivers s)\<rparr>)
           = sum_wins s + (if won then 1 else 0)"
    and "sum_losses (s\<lparr>drivers := AList.update k (add_race_result d n won) (drivers s)\<rparr>)
           = sum_losses s + (if won then 0 else 1)"
  using sum_update [OF assms, of wins] sum_update [OF assms, of losses]
  by (simp_all add: sum_wins_def sum_losses_def dict_values_def add_race_result_counts)

lemma record_losers_sums:
  assumes "\<forall>n\<in>set ns. has_key (drivers s) n"
  shows "sum_wins (snd (record_losers w ns s)) = sum_wins s
       \<and> sum_losses (snd (record_losers w ns s)) = sum_losses s + int (length (filter (\<lambda>n. n \<noteq> w) ns))
       \<and> (\<forall>n. has_key (drivers (snd (record_losers w ns s))) n = has_key (drivers s) n)"
  using assms
proof (induction ns arbitrary: s)
  case Nil
  then show ?case by simp
next
  case (Cons n ns)
  show ?case
  proof (cases "n = w")
    case True
    with Cons.IH [of s] Cons.prems show ?thesis by simp
  next
    case False
    from Cons.prems obtain l where l: "map_of (drivers s) n = Some l"
      by (auto simp: has_key_def)
    let ?s = "s\<lparr>drivers := AList.update n (add_race_result l (race_counter s) False) (drivers s)\<rparr>"
    have keys: "has_key (drivers ?s) m = has_key (drivers s) m" for m
      by (cases "m = n") (simp_all add: has_key_def update_conv' l)
    then have "\<forall>m\<in>set ns. has_key (drivers ?s) m"
      using Cons.prems by simp
    from Cons.IH [OF this] charge_sums [OF l, of "race_counter s" False] keys False l
    show ?thesis by simp
  qed
qed

lemma call_race_sums:
  assumes closed: "\<forall>n\<in>set (participants c). has_key (drivers s) n"
  shows "sum_wins (snd (call_race c s))
           = sum_wins s + (if succeeded (fst (call_race c s)) then 1 else 0)"
    and "sum_losses (snd (call_race c s))
           = sum_losses s + (if succeeded (fst (call_race c s))
                             then int (length (participants c))
                                  - int (length (filter (\<lambda>n. n = call_winner c) (participants c)))
                             else 0)"
    and "has_key (drivers (snd (call_race c s))) n = has_key (drivers s) n"
    and "succeeded (fst (call_race c s)) \<longrightarrow> call_winner c \<in> set (participants c)"
proof -
  define na nb w third where "na = call_driver1 c" and "nb = call_driver2 c"
    and "w = call_winner c" and "third = call_driver3 c"
  define ns where "ns = racing_drivers na nb third"
  have call: "call_race c s = record_race (call_now c) na nb w third (call_race_type c) s"
    by (simp add: call_race_def na_def nb_def w_def third_def)
  have ps: "participants c = ns"
    by (simp add: participants_def ns_def na_def nb_def third_def)
  have all: "sum_wins (snd (call_race c s))
           = sum_wins s + (if succeeded (fst (call_race c s)) then 1 else 0)
    \<and> sum_losses (snd (call_race c s))
           = sum_losses s + (if succeeded (fst (call_race c s))
                             then int (length ns) - int (length (filter (\<lambda>n. n = w) ns))
                             else 0)
    \<and> has_key (drivers (snd (call_race c s))) n = has_key (drivers s) n
    \<and> (succeeded (fst (call_race c s)) \<longrightarrow> w \<in> set ns)"
  proof (cases "\<exists>a b. map_of (drivers s) na = Some a \<and> map_of (drivers s) nb = Some b
      \<and> w \<in> set ns \<and> division a = division b \<and> \<not> is_eliminated a \<and> \<not> is_eliminated b")
    case False
    then have "snd (call_race c s) = s \<and> \<not> succeeded (fst (call_race c s))"
      unfolding call ns_def
      by (auto simp: record_race_def succeeded_def split: option.splits)
    then show ?thesis by simp
  next
    case True
    then obtain a b where a: "map_of (drivers s) na = Some a" and b: "map_of (drivers s) nb = Some b"
      and ok: "w \<in> set ns" "division a = division b" "\<not> is_eliminated a" "\<not> is_eliminated b"
      by blast
    from ok(1) closed ps obtain x where x: "map_of (drivers s) w = Some x"
      by (auto simp: has_key_def)
    define r where "r = Race (call_now c) (race_counter s + 1) na nb w (division a) None third
        (call_race_type c)"
    define s2 where "s2 = s\<lparr>race_counter := race_counter s + 1, race_log := race_log s @ [r]\<rparr>"
    define s3 where "s3 = s2\<lparr>drivers := AList.update w (add_race_result x (race_counter s2) True)
        (drivers s2)\<rparr>"
    have x2: "map_of (drivers s2) w = Some x"
      using x by (simp add: s2_def)
    have sums2: "sum_wins s2 = sum_wins s" "sum_losses s2 = sum_losses s"
      by (simp_all add: s2_def sum_wins_def sum_losses_def)
    have sums3: "sum_wins s3 = sum_wins s + 1" "sum_losses s3 = sum_losses s"
      using charge_sums [OF x2, of "race_counter s2" True] sums2 by (simp_all add: s3_def)
    have keys3: "has_key (drivers s3) m = has_key (drivers s) m" for m
      by (cases "m = w") (simp_all add: has_key_def update_conv' s3_def s2_def x)
    have closed3: "\<forall>m\<in>set ns. has_key (drivers s3) m"
      using closed ps keys3 by simp
    have none: "fst (record_losers w ns s3) = None"
      by (rule record_losers_returns [OF closed3])
    obtain s4 where rl: "record_losers w ns s3 = (None, s4)"
      using none by (cases "record_losers w ns s3") auto
    have run: "call_race c s
        = (Inr (True, ''Race '' @ str_int (race_counter s4) @ '': '' @ w @ '' wins!''), s4)"
      using a b ok x rl [unfolded s3_def s2_def r_def ns_def] unfolding call
      by (simp add: record_race_def Let_def ns_def)
    have compl: "int (length (filter (\<lambda>n. n \<noteq> w) ns))
        = int (length ns) - int (length (filter (\<lambda>n. n = w) ns))"
      using sum_length_filter_compl [of "\<lambda>n. n = w" ns] by simp
    from record_losers_sums [OF closed3, of w] sums3 keys3 compl ok(1) run rl
    show ?thesis by (simp add: succeeded_def)
  qed
  from all show "sum_wins (snd (call_race c s))
           = sum_wins s + (if succeeded (fst (call_race c s)) then 1 else 0)"
    by simp
  from all show "sum_losses (snd (call_race c s))
           = sum_losses s + (if succeeded (fst (call_race c s))
                             then int (length (participants c))
                                  - int (length (filter (\<lambda>n. n = call_winner c) (participants c)))
                             else 0)"
    by (simp add: ps w_def)
  from all show "has_key (drivers (snd (call_race c s))) n = has_key (drivers s) n"
    by simp
  from all show "succeeded (fst (call_race c s)) \<longrightarrow> call_winner c \<in> set (participants c)"
    by (simp add: ps w_def)
qed

lemma record_all_sums:
  assumes "\<forall>c\<in>set cs. \<forall>n\<in>set (participants c). has_key (drivers s) n"
  shows "sum_wins (record_all s cs) = sum_wins s + successes s cs
       \<and> sum_losses (record_all s cs) = sum_losses s + slots s cs - winner_slots s cs"
  using assms
proof (induction cs arbitrary: s)
  case Nil
  then show ?case by simp
next
  case (Cons c cs)
  from Cons.prems have here: "\<forall>n\<in>set (participants c). has_key (drivers s) n" by simp
  have "\<forall>c'\<in>set cs. \<forall>n\<in>set (participants c'). has_key (drivers (snd (call_race c s))) n"
    using Cons.prems by (simp add: call_race_sums(3) [OF here])
  from Cons.IH [OF this] call_race_sums(1,2) [OF here]
  show ?case by simp
qed

lemma winner_slots_distinct:
  assumes "\<forall>c\<in>set cs. \<forall>n\<in>set (participants c). has_key (drivers s) n"
    and "\<forall>c\<in>set cs. distinct (participants c)"
  shows "winner_slots s cs = successes s cs"
  using assms
proof (induction cs arbitrary: s)
  case Nil
  then show ?case by simp
next
  case (Cons c cs)
  from Cons.prems have here: "\<forall>n\<in>set (participants c). has_key (drivers s) n"
    and d: "distinct (participants c)" by simp_all
  have "\<forall>c'\<in>set cs. \<forall>n\<in>set (participants c'). has_key (drivers (snd (call_race c s))) n"
    using Cons.prems by (simp add: call_race_sums(3) [OF here])
  from Cons.IH [OF this] Cons.prems(2)
  have rest: "winner_slots (snd (call_race c s)) cs = successes (snd (call_race c s)) cs"
    by simp
  have "succeeded (fst (call_race c s)) \<Longrightarrow>
      length (filter (\<lambda>n. n = call_winner c) (participants c)) = 1"
  proof -
    assume "succeeded (fst (call_race c s))"
    with call_race_sums(4) [OF here] have "call_winner c \<in> set (participants c)" by simp
    with d show ?thesis
      by (simp add: distinct_length_filter)
  qed
  with rest show ?case by simp
qed

lemma sum_list_zero:
  fixes f :: "'a \<Rightarrow> int"
  shows "\<forall>x\<in>set xs. f x = 0 \<Longrightarrow> sum_list (map f xs) = 0"
  by (induction xs) simp_all

lemma zero_sums:
  "\<forall>d\<in>set (dict_values (drivers s)). wins d = 0 \<and> losses d = 0 \<Longrightarrow>
     sum_wins s = 0 \<and> sum_losses s = 0"
  by (simp add: sum_wins_def sum_losses_def sum_list_zero)

lemma open_trio_eq:
  "open_trio = \<lparr>drivers = [(''Alice'', Driver ''Alice'' ''OPEN'' 0 0 [] ACTIVE),
                            (''Bob'', Driver ''Bob'' ''OPEN'' 0 0 [] ACTIVE),
                            (''Cara'', Driver ''Cara'' ''OPEN'' 0 0 [] ACTIVE)],
                 race_log = [], race_counter = 0\<rparr>"
  by (simp add: open_trio_def open_pair_eq add_driver_def strip_eval
        has_key_def divisions_def Let_def)

lemmas tally_eval = call_race_def participants_def succeeded_def sum_wins_def sum_losses_def
  dict_values_def

section \<open>Driver status after a race result\<close>

text \<open>
  C3. After every \<open>add_race_result\<close> call the driver's stored status is
  \<open>ELIMINATED\<close> exactly when the losses are at least 3, and \<open>ACTIVE\<close> otherwise,
  whatever the status, wins and losses were before the call.
\<close>

theorem add_race_result_status:
  "(status (add_race_result d race_no won) = ELIMINATED
      \<longleftrightarrow> losses (add_race_result d race_no won) \<ge> 3)
   \<and> status (add_race_result d race_no won)
       = (if losses (add_race_result d race_no won) \<ge> 3 then ELIMINATED else ACTIVE)"
  by (simp add: add_race_result_def update_status_def is_eliminated_def Let_def
        ACTIVE_def ELIMINATED_def)

section \<open>The race counter\<close>

text \<open>
  C4. Whenever \<open>record_race\<close> returns success, the race counter afterwards is the
  counter before plus exactly 1; whenever it returns failure, the race counter and the
  race log are as they were. (The third way out, an exception, is not a return.)
\<close>

theorem record_race_counter:
  assumes "record_race now na nb w third rt s = (out, s')"
  shows "(\<forall>m. out = Inr (True, m) \<longrightarrow> race_counter s' = race_counter s + 1)
       \<and> (\<forall>m. out = Inr (False, m)
            \<longrightarrow> race_counter s' = race_counter s \<and> race_log s' = race_log s)"
  using assms unfolding record_race_def Let_def
  by (auto split: option.splits if_splits prod.splits dest: record_losers_frame)

theorem record_race_counter_witness:
  "fst (record_race ''t1'' ''Alice'' ''Bob'' ''Alice'' None ''regular'' open_pair)
      = Inr (True, ''Race 1: Alice wins!'')
   \<and> race_counter (snd (record_race ''t1'' ''Alice'' ''Bob'' ''Alice'' None ''regular'' open_pair))
      = race_counter open_pair + 1
   \<and> fst (record_race ''t1'' ''Alice'' ''Zed'' ''Alice'' None ''regular'' open_pair)
      = Inr (False, ''Driver not found'')
   \<and> race_counter (snd (record_race ''t1'' ''Alice'' ''Zed'' ''Alice'' None ''regular'' open_pair))
      = race_counter open_pair
   \<and> race_log (snd (record_race ''t1'' ''Alice'' ''Zed'' ''Alice'' None ''regular'' open_pair))
      = race_log open_pair"
proof -
  have ok: "fst (record_race ''t1'' ''Alice'' ''Bob'' ''Alice'' None ''regular'' open_pair)
      = Inr (True, ''Race 1: Alice wins!'')"
    by (simp add: open_pair_eq race_eval str_int_1)
  have bad: "fst (record_race ''t1'' ''Alice'' ''Zed'' ''Alice'' None ''regular'' open_pair)
      = Inr (False, ''Driver not found'')"
    by (simp add: open_pair_eq race_eval)
  from ok bad
    record_race_counter [OF surjective_pairing,
      of "''t1''" "''Alice''" "''Bob''" "''Alice''" None "''regular''" open_pair]
    record_race_counter [OF surjective_pairing,
      of "''t1''" "''Alice''" "''Zed''" "''Alice''" None "''regular''" open_pair]
  show ?thesis by simp
qed

section \<open>The validation of a race\<close>

text \<open>
  C5. \<open>record_race\<close> returns failure, and leaves the manager as it was, whenever the
  first two drivers have different divisions, whenever one of them has three or more
  losses, and whenever the winner is none of the named participants. The checks run in
  the order existence, winner, division, elimination, and the message returned is that
  of the first check that fails.
\<close>

theorem record_race_validation:
  "(\<forall>a b. map_of (drivers s) na = Some a \<and> map_of (drivers s) nb = Some b
          \<and> division a \<noteq> division b
        \<longrightarrow> (\<exists>m. record_race now na nb w third rt s = (Inr (False, m), s)))
   \<and> (\<forall>a b. map_of (drivers s) na = Some a \<and> map_of (drivers s) nb = Some b
          \<and> (losses a \<ge> 3 \<or> losses b \<ge> 3)
        \<longrightarrow> (\<exists>m. record_race now na nb w third rt s = (Inr (False, m), s)))
   \<and> (w \<notin> {na, nb} \<union> set_option third
        \<longrightarrow> (\<exists>m. record_race now na nb w third rt s = (Inr (False, m), s)))
   \<and> (\<not> has_key (drivers s) na \<or> \<not> has_key (drivers s) nb
        \<longrightarrow> record_race now na nb w third rt s = (Inr (False, ''Driver not found''), s))
   \<and> (has_key (drivers s) na \<and> has_key (drivers s) nb \<and> w \<notin> set (racing_drivers na nb third)
        \<longrightarrow> record_race now na nb w third rt s
              = (Inr (False, ''Winner must be one of the racing drivers''), s))
   \<and> (\<forall>a b. map_of (drivers s) na = Some a \<and> map_of (drivers s) nb = Some b
          \<and> w \<in> set (racing_drivers na nb third) \<and> division a \<noteq> division b
        \<longrightarrow> record_race now na nb w third rt s
              = (Inr (False, ''Drivers must be in the same division''), s))
   \<and> (\<forall>a b. map_of (drivers s) na = Some a \<and> map_of (drivers s) nb = Some b
          \<and> w \<in> set (racing_drivers na nb third) \<and> division a = division b
          \<and> (is_eliminated a \<or> is_eliminated b)
        \<longrightarrow> record_race now na nb w third rt s
              = (Inr (False, ''Eliminated drivers cannot race''), s))"
proof -
  have sub: "set (racing_drivers na nb third) \<subseteq> {na, nb} \<union> set_option third"
    by (auto simp: racing_drivers_def split: option.splits if_splits)
  show ?thesis
    using sub unfolding record_race_def has_key_def is_eliminated_def
    by (auto split: option.splits)
qed

theorem record_race_validation_witness:
  "map_of (drivers paddock) ''Alice'' = Some (Driver ''Alice'' ''OPEN'' 0 0 [] ACTIVE)
   \<and> map_of (drivers paddock) ''Cara'' = Some (Driver ''Cara'' ''DAMES'' 0 0 [] ACTIVE)
   \<and> map_of (drivers paddock) ''Dan'' = Some (Driver ''Dan'' ''OPEN'' 0 3 [] ACTIVE)
   \<and> \<not> has_key (drivers paddock) ''Zed''
   \<and> record_race ''t1'' ''Alice'' ''Cara'' ''Alice'' None ''regular'' paddock
       = (Inr (False, ''Drivers must be in the same division''), paddock)
   \<and> record_race ''t1'' ''Alice'' ''Dan'' ''Alice'' None ''regular'' paddock
       = (Inr (False, ''Eliminated drivers cannot race''), paddock)
   \<and> record_race ''t1'' ''Alice'' ''Cara'' ''Zed'' None ''regular'' paddock
       = (Inr (False, ''Winner must be one of the racing drivers''), paddock)
   \<and> record_race ''t1'' ''Zed'' ''Cara'' ''Eve'' None ''regular'' paddock
       = (Inr (False, ''Driver not found''), paddock)
   \<and> record_race ''t1'' ''Dan'' ''Cara'' ''Dan'' None ''regular'' paddock
       = (Inr (False, ''Drivers must be in the same division''), paddock)"
proof -
  have alice: "map_of (drivers paddock) ''Alice'' = Some (Driver ''Alice'' ''OPEN'' 0 0 [] ACTIVE)"
    and cara: "map_of (drivers paddock) ''Cara'' = Some (Driver ''Cara'' ''DAMES'' 0 0 [] ACTIVE)"
    and dan: "map_of (drivers paddock) ''Dan'' = Some (Driver ''Dan'' ''OPEN'' 0 3 [] ACTIVE)"
    and zed: "\<not> has_key (drivers paddock) ''Zed''"
    by (simp_all add: paddock_eq has_key_def)
  have r1: "record_race ''t1'' ''Alice'' ''Cara'' ''Alice'' None ''regular'' paddock
       = (Inr (False, ''Drivers must be in the same division''), paddock)"
    using record_race_validation
            [where s = paddock and na = "''Alice''" and nb = "''Cara''" and w = "''Alice''" and third = None
               and now = "''t1''" and rt = "''regular''"] alice cara
    by (simp add: racing_drivers_def Driver_def)
  have r2: "record_race ''t1'' ''Alice'' ''Dan'' ''Alice'' None ''regular'' paddock
       = (Inr (False, ''Eliminated drivers cannot race''), paddock)"
    using record_race_validation
            [where s = paddock and na = "''Alice''" and nb = "''Dan''" and w = "''Alice''" and third = None
               and now = "''t1''" and rt = "''regular''"] alice dan
    by (simp add: racing_drivers_def Driver_def is_eliminated_def)
  have r3: "record_race ''t1'' ''Alice'' ''Cara'' ''Zed'' None ''regular'' paddock
       = (Inr (False, ''Winner must be one of the racing drivers''), paddock)"
    using record_race_validation
            [where s = paddock and na = "''Alice''" and nb = "''Cara''" and w = "''Zed''" and third = None
               and now = "''t1''" and rt = "''regular''"] alice cara
    by (simp add: racing_drivers_def has_key_def)
  have r4: "record_race ''t1'' ''Zed'' ''Cara'' ''Eve'' None ''regular'' paddock
       = (Inr (False, ''Driver not found''), paddock)"
    using record_race_validation
            [where s = paddock and na = "''Zed''" and nb = "''Cara''" and w = "''Eve''" and third = None
               and now = "''t1''" and rt = "''regular''"] zed
    by simp
  have r5: "record_race ''t1'' ''Dan'' ''Cara'' ''Dan'' None ''regular'' paddock
       = (Inr (False, ''Drivers must be in the same division''), paddock)"
    using record_race_validation
            [where s = paddock and na = "''Dan''" and nb = "''Cara''" and w = "''Dan''" and third = None
               and now = "''t1''" and rt = "''regular''"] dan cara
    by (simp add: racing_drivers_def Driver_def)
  from alice cara dan zed r1 r2 r3 r4 r5 show ?thesis by simp
qed

section \<open>A third driver who is not registered\<close>

text \<open>
  C1, at the input where \<open>record_race\<close> does not return a pair. Alice and Bob are
  registered, the third participant Zed is not. The first two names pass the existence
  check, the third is never checked; the counter is raised, the race is logged, Alice
  gets her win and Bob his loss, and the lookup of Zed raises \<open>KeyError\<close>.
\<close>

theorem record_race_unregistered_third:
  "record_race ''t1'' ''Alice'' ''Bob'' ''Alice'' (Some ''Zed'') ''championship'' open_pair
     = (Inl KeyError,
        \<lparr>drivers = [(''Alice'', \<lparr>name = ''Alice'', division = ''OPEN'', wins = 1, losses = 0,
                                  races = [1], status = ACTIVE\<rparr>),
                     (''Bob'', \<lparr>name = ''Bob'', division = ''OPEN'', wins = 0, losses = 1,
                                races = [1], status = ACTIVE\<rparr>)],
          race_log = [\<lparr>race_number = 1, driver1 = ''Alice'', driver2 = ''Bob'', winner = ''Alice'',
                       race_division = ''OPEN'', timestamp = ''t1'', driver3 = Some ''Zed'',
                       race_type = ''championship''\<rparr>],
          race_counter = 1\<rparr>)"
  by (simp add: open_pair_eq race_eval)

section \<open>Elimination is read from the losses\<close>

text \<open>
  C10. The elimination check of \<open>record_race\<close> reads only the losses of the first
  two drivers, never their stored status. With fewer than three losses each, whatever
  the stored statuses are, the race is not rejected, and it succeeds when all
  participants are registered; with three or more losses the race is rejected, also
  when the stored status is \<open>ACTIVE\<close>. Two managers that differ only in stored
  statuses get the same outcome.
\<close>

theorem elimination_check_reads_losses:
  "(\<forall>a b. map_of (drivers s) na = Some a \<and> map_of (drivers s) nb = Some b
          \<and> w \<in> set (racing_drivers na nb third) \<and> division a = division b
          \<and> losses a < 3 \<and> losses b < 3
        \<longrightarrow> (\<forall>m. fst (record_race now na nb w third rt s) \<noteq> Inr (False, m))
          \<and> ((\<forall>n\<in>set (racing_drivers na nb third). has_key (drivers s) n)
               \<longrightarrow> (\<exists>m. fst (record_race now na nb w third rt s) = Inr (True, m))))
   \<and> (\<forall>a b. map_of (drivers s) na = Some a \<and> map_of (drivers s) nb = Some b
          \<and> (losses a \<ge> 3 \<or> losses b \<ge> 3)
        \<longrightarrow> (\<exists>m. record_race now na nb w third rt s = (Inr (False, m), s)))
   \<and> (\<forall>t. without_status t = without_status s
        \<longrightarrow> fst (record_race now na nb w third rt t) = fst (record_race now na nb w third rt s))"
proof (intro conjI allI impI)
  fix a b
  assume h: "map_of (drivers s) na = Some a \<and> map_of (drivers s) nb = Some b
          \<and> w \<in> set (racing_drivers na nb third) \<and> division a = division b
          \<and> losses a < 3 \<and> losses b < 3"
  then show "fst (record_race now na nb w third rt s) \<noteq> Inr (False, m)" for m
    using record_race_passes(1) [where s = s and na = na and a = a and nb = nb and b = b and w = w and third = third and now = now and rt = rt] by simp
  assume "\<forall>n\<in>set (racing_drivers na nb third). has_key (drivers s) n"
  with h show "\<exists>m. fst (record_race now na nb w third rt s) = Inr (True, m)"
    using record_race_passes(2) [where s = s and na = na and a = a and nb = nb and b = b and w = w and third = third and now = now and rt = rt] by simp
next
  fix a b
  assume "map_of (drivers s) na = Some a \<and> map_of (drivers s) nb = Some b
          \<and> (losses a \<ge> 3 \<or> losses b \<ge> 3)"
  then show "\<exists>m. record_race now na nb w third rt s = (Inr (False, m), s)"
    by (auto simp: record_race_def is_eliminated_def)
next
  fix t
  assume "without_status t = without_status s"
  then show "fst (record_race now na nb w third rt t) = fst (record_race now na nb w third rt s)"
    by (rule record_race_ignores_status)
qed

theorem elimination_check_reads_losses_witness:
  "map_of (drivers paddock) ''Eve'' = Some (Driver ''Eve'' ''OPEN'' 5 0 [] ELIMINATED)
   \<and> map_of (drivers paddock) ''Bob'' = Some (Driver ''Bob'' ''OPEN'' 0 0 [] INACTIVE)
   \<and> (\<exists>m. fst (record_race ''t1'' ''Eve'' ''Bob'' ''Eve'' None ''regular'' paddock) = Inr (True, m))
   \<and> map_of (drivers paddock) ''Dan'' = Some (Driver ''Dan'' ''OPEN'' 0 3 [] ACTIVE)
   \<and> (\<exists>m. record_race ''t1'' ''Dan'' ''Bob'' ''Bob'' None ''regular'' paddock = (Inr (False, m), paddock))
   \<and> without_status (open_pair\<lparr>drivers := [(''Alice'', Driver ''Alice'' ''OPEN'' 0 0 [] ELIMINATED),
                                              (''Bob'', Driver ''Bob'' ''OPEN'' 0 0 [] INACTIVE)]\<rparr>)
       = without_status open_pair
   \<and> fst (record_race ''t1'' ''Alice'' ''Bob'' ''Bob'' None ''regular''
            (open_pair\<lparr>drivers := [(''Alice'', Driver ''Alice'' ''OPEN'' 0 0 [] ELIMINATED),
                                    (''Bob'', Driver ''Bob'' ''OPEN'' 0 0 [] INACTIVE)]\<rparr>))
       = fst (record_race ''t1'' ''Alice'' ''Bob'' ''Bob'' None ''regular'' open_pair)"
proof -
  have eve: "map_of (drivers paddock) ''Eve'' = Some (Driver ''Eve'' ''OPEN'' 5 0 [] ELIMINATED)"
    and bob: "map_of (drivers paddock) ''Bob'' = Some (Driver ''Bob'' ''OPEN'' 0 0 [] INACTIVE)"
    and dan: "map_of (drivers paddock) ''Dan'' = Some (Driver ''Dan'' ''OPEN'' 0 3 [] ACTIVE)"
    by (simp_all add: paddock_eq)
  have keys: "\<forall>n\<in>set (racing_drivers ''Eve'' ''Bob'' None). has_key (drivers paddock) n"
    by (simp add: racing_drivers_def has_key_def paddock_eq)
  have same: "without_status (open_pair\<lparr>drivers := [(''Alice'', Driver ''Alice'' ''OPEN'' 0 0 [] ELIMINATED),
                                                 (''Bob'', Driver ''Bob'' ''OPEN'' 0 0 [] INACTIVE)]\<rparr>)
       = without_status open_pair"
    by (simp add: without_status_def open_pair_eq Driver_def)
  note thm1 = elimination_check_reads_losses [where s = paddock and na = "''Eve''" and nb = "''Bob''"
      and w = "''Eve''" and third = None and now = "''t1''" and rt = "''regular''", THEN conjunct1, rule_format]
  note thm2 = elimination_check_reads_losses [where s = paddock and na = "''Dan''" and nb = "''Bob''"
      and w = "''Bob''" and third = None and now = "''t1''" and rt = "''regular''",
      THEN conjunct2, THEN conjunct1, rule_format]
  note thm3 = elimination_check_reads_losses [where s = open_pair and na = "''Alice''" and nb = "''Bob''"
      and w = "''Bob''" and third = None and now = "''t1''" and rt = "''regular''",
      THEN conjunct2, THEN conjunct2, rule_format]
  have pre: "map_of (drivers paddock) ''Eve'' = Some (Driver ''Eve'' ''OPEN'' 5 0 [] ELIMINATED)
      \<and> map_of (drivers paddock) ''Bob'' = Some (Driver ''Bob'' ''OPEN'' 0 0 [] INACTIVE)
      \<and> ''Eve'' \<in> set (racing_drivers ''Eve'' ''Bob'' None)
      \<and> division (Driver ''Eve'' ''OPEN'' 5 0 [] ELIMINATED) = division (Driver ''Bob'' ''OPEN'' 0 0 [] INACTIVE)
      \<and> losses (Driver ''Eve'' ''OPEN'' 5 0 [] ELIMINATED) < 3
      \<and> losses (Driver ''Bob'' ''OPEN'' 0 0 [] INACTIVE) < 3"
    using eve bob by (simp add: racing_drivers_def Driver_def)
  have ok: "\<exists>m. fst (record_race ''t1'' ''Eve'' ''Bob'' ''Eve'' None ''regular'' paddock) = Inr (True, m)"
    using thm1 [OF pre] keys by blast
  have pre2: "map_of (drivers paddock) ''Dan'' = Some (Driver ''Dan'' ''OPEN'' 0 3 [] ACTIVE)
      \<and> map_of (drivers paddock) ''Bob'' = Some (Driver ''Bob'' ''OPEN'' 0 0 [] INACTIVE)
      \<and> (losses (Driver ''Dan'' ''OPEN'' 0 3 [] ACTIVE) \<ge> 3 \<or> losses (Driver ''Bob'' ''OPEN'' 0 0 [] INACTIVE) \<ge> 3)"
    using dan bob by (simp add: Driver_def)
  have rej: "\<exists>m. record_race ''t1'' ''Dan'' ''Bob'' ''Bob'' None ''regular'' paddock = (Inr (False, m), paddock)"
    by (rule thm2 [OF pre2])
  have ind: "fst (record_race ''t1'' ''Alice'' ''Bob'' ''Bob'' None ''regular''
            (open_pair\<lparr>drivers := [(''Alice'', Driver ''Alice'' ''OPEN'' 0 0 [] ELIMINATED),
                                    (''Bob'', Driver ''Bob'' ''OPEN'' 0 0 [] INACTIVE)]\<rparr>))
       = fst (record_race ''t1'' ''Alice'' ''Bob'' ''Bob'' None ''regular'' open_pair)"
    by (rule thm3 [OF same])
  show ?thesis
    by (intro conjI eve bob dan ok rej same ind)
qed

section \<open>Renaming a driver and changing the division\<close>

text \<open>
  C9. The new name and the new division are what \<open>str.strip\<close> leaves of the
  request's values (all Unicode whitespace goes, at both ends). When
  \<open>update_driver\<close> succeeds, the driver found under the old key is found
  under the new, stripped name with wins, losses, races and status unchanged and the
  new, stripped division; when the name changed, the old key is gone and the name
  field is the new name. No other key, and neither the race log nor the race counter,
  changes. The operation fails exactly when the stripped name or division is empty, the
  division is not one of the fixed divisions, the old key is absent, or the new name
  differs from the old and is already a key; a failure changes nothing.
\<close>

theorem update_driver_effect:
  "(let new = strip (get_default rn []); nd = strip (get_default rd []);
        res = update_driver dn rn rd s
    in (fst (fst res) \<longrightarrow>
          (\<exists>d d'. map_of (drivers s) dn = Some d
             \<and> (new \<noteq> dn \<longrightarrow> map_of (drivers (snd res)) dn = None \<and> name d' = new)
             \<and> (new = dn \<longrightarrow> name d' = name d)
             \<and> map_of (drivers (snd res)) new = Some d'
             \<and> wins d' = wins d \<and> losses d' = losses d \<and> races d' = races d
             \<and> status d' = status d \<and> division d' = nd
             \<and> (\<forall>k. k \<noteq> dn \<and> k \<noteq> new \<longrightarrow> map_of (drivers (snd res)) k = map_of (drivers s) k)
             \<and> race_log (snd res) = race_log s \<and> race_counter (snd res) = race_counter s))
     \<and> (fst (fst res) \<longleftrightarrow>
           \<not> (new = [] \<or> nd = [] \<or> nd \<notin> set divisions \<or> \<not> has_key (drivers s) dn
               \<or> (new \<noteq> dn \<and> has_key (drivers s) new)))
     \<and> (\<not> fst (fst res) \<longrightarrow> snd res = s))"
  unfolding update_driver_def Let_def has_key_def
  by (auto simp: update_conv' delete_conv' split: option.splits)

theorem update_driver_effect_witness:
  "fst (fst (update_driver ''Eve'' (Some '' Eva '') (Some ''DAMES'') paddock))
   \<and> map_of (drivers paddock) ''Eve'' = Some (Driver ''Eve'' ''OPEN'' 5 0 [] ELIMINATED)
   \<and> map_of (drivers (snd (update_driver ''Eve'' (Some '' Eva '') (Some ''DAMES'') paddock))) ''Eve''
       = None
   \<and> map_of (drivers (snd (update_driver ''Eve'' (Some '' Eva '') (Some ''DAMES'') paddock))) ''Eva''
       = Some (Driver ''Eva'' ''DAMES'' 5 0 [] ELIMINATED)
   \<and> has_key (drivers paddock) ''Alice''
   \<and> \<not> fst (fst (update_driver ''Eve'' (Some ''Alice'') (Some ''DAMES'') paddock))
   \<and> snd (update_driver ''Eve'' (Some ''Alice'') (Some ''DAMES'') paddock) = paddock
   \<and> strip [CHR 0xC2, CHR 0xA0] = []
   \<and> \<not> fst (fst (update_driver ''Eve'' (Some [CHR 0xC2, CHR 0xA0]) (Some ''DAMES'') paddock))
   \<and> strip (''DAMES'' @ [CHR 0xE3, CHR 0x80, CHR 0x80]) = ''DAMES''
   \<and> fst (fst (update_driver ''Eve'' (Some ''Eve'')
                 (Some (''DAMES'' @ [CHR 0xE3, CHR 0x80, CHR 0x80])) paddock))"
proof -
  note ok = update_driver_effect [where dn = "''Eve''" and rn = "Some '' Eva ''"
      and rd = "Some ''DAMES''" and s = paddock, unfolded Let_def]
  note bad = update_driver_effect [where dn = "''Eve''" and rn = "Some ''Alice''"
      and rd = "Some ''DAMES''" and s = paddock, unfolded Let_def]
  note blank = update_driver_effect [where dn = "''Eve''" and rn = "Some [CHR 0xC2, CHR 0xA0]"
      and rd = "Some ''DAMES''" and s = paddock, unfolded Let_def]
  note wide = update_driver_effect [where dn = "''Eve''" and rn = "Some ''Eve''"
      and rd = "Some (''DAMES'' @ [CHR 0xE3, CHR 0x80, CHR 0x80])" and s = paddock,
      unfolded Let_def]
  have new: "strip (get_default (Some '' Eva '') []) = ''Eva''"
    and nd: "strip (get_default (Some ''DAMES'') []) = ''DAMES''"
    and new2: "strip (get_default (Some ''Alice'') []) = ''Alice''"
    and new3: "strip (get_default (Some [CHR 0xC2, CHR 0xA0]) []) = []"
    and new4: "strip (get_default (Some ''Eve'') []) = ''Eve''"
    and nd4: "strip (get_default (Some (''DAMES'' @ [CHR 0xE3, CHR 0x80, CHR 0x80])) []) = ''DAMES''"
    by (simp_all add: strip_eval get_default_def)
  have nbsp: "strip [CHR 0xC2, CHR 0xA0] = []"
    and ideographic: "strip (''DAMES'' @ [CHR 0xE3, CHR 0x80, CHR 0x80]) = ''DAMES''"
    by (simp_all add: strip_eval)
  have eve: "map_of (drivers paddock) ''Eve'' = Some (Driver ''Eve'' ''OPEN'' 5 0 [] ELIMINATED)"
    and eva: "\<not> has_key (drivers paddock) ''Eva''"
    and alice: "has_key (drivers paddock) ''Alice''"
    and has_eve: "has_key (drivers paddock) ''Eve''"
    and dames: "''DAMES'' \<in> set divisions"
    by (simp_all add: paddock_eq has_key_def divisions_def)
  have success: "fst (fst (update_driver ''Eve'' (Some '' Eva '') (Some ''DAMES'') paddock))"
    using ok [THEN conjunct2, THEN conjunct1] new nd eva has_eve dames by simp
  have failure: "\<not> fst (fst (update_driver ''Eve'' (Some ''Alice'') (Some ''DAMES'') paddock))"
    using bad [THEN conjunct2, THEN conjunct1] new2 nd alice has_eve dames by simp
  have unchanged: "snd (update_driver ''Eve'' (Some ''Alice'') (Some ''DAMES'') paddock) = paddock"
    using bad [THEN conjunct2, THEN conjunct2] failure by simp
  have required: "\<not> fst (fst (update_driver ''Eve'' (Some [CHR 0xC2, CHR 0xA0]) (Some ''DAMES'') paddock))"
    using blank [THEN conjunct2, THEN conjunct1] new3 by simp
  have trimmed: "fst (fst (update_driver ''Eve'' (Some ''Eve'')
                 (Some (''DAMES'' @ [CHR 0xE3, CHR 0x80, CHR 0x80])) paddock))"
    using wide [THEN conjunct2, THEN conjunct1] new4 nd4 has_eve dames by simp
  from ok [THEN conjunct1, rule_format, OF success] obtain d d'
    where d: "map_of (drivers paddock) ''Eve'' = Some d"
      and gone: "map_of (drivers (snd (update_driver ''Eve'' (Some '' Eva '') (Some ''DAMES'') paddock))) ''Eve'' = None"
      and nm: "name d' = ''Eva''"
      and d': "map_of (drivers (snd (update_driver ''Eve'' (Some '' Eva '') (Some ''DAMES'') paddock))) ''Eva'' = Some d'"
      and fields: "wins d' = wins d" "losses d' = losses d" "races d' = races d"
        "status d' = status d" "division d' = ''DAMES''"
    unfolding new nd by auto
  from d eve have "d = Driver ''Eve'' ''OPEN'' 5 0 [] ELIMINATED" by simp
  with nm fields have "d' = Driver ''Eva'' ''DAMES'' 5 0 [] ELIMINATED"
    by (cases d') (simp add: Driver_def)
  with d' have moved: "map_of (drivers (snd (update_driver ''Eve'' (Some '' Eva '') (Some ''DAMES'') paddock))) ''Eva''
       = Some (Driver ''Eva'' ''DAMES'' 5 0 [] ELIMINATED)" by simp
  show ?thesis
    by (intro conjI success eve gone moved alice failure unchanged nbsp required ideographic trimmed)
qed

section \<open>Rankings\<close>

text \<open>
  C2, as the code has it. Take the drivers of the manager in iteration order that pass
  the division filter. When the win ratio of one of them is beyond the doubles (which
  no driver with non-negative wins and losses can cause), \<open>get_rankings\<close> raises
  \<open>OverflowError\<close>. Otherwise it returns one record per selected driver, with that
  driver's fields, in an order that is sorted ascending by the key (stored status is
  \<open>ELIMINATED\<close>, minus wins, minus win ratio, losses) and keeps drivers of equal key
  in iteration order, so it is the stable sort of the selection; the positions count
  from 1 in that order. The first component of the key is the stored status, not the
  property \<open>is_eliminated\<close>.
\<close>

theorem get_rankings_sorted:
  "(let sel = filter (\<lambda>d. case dv of None \<Rightarrow> True | Some x \<Rightarrow> division d = x)
                (map snd (drivers s));
        over = (\<lambda>d. wins d + losses d > 0
                  \<and> \<bar>real_of_int (wins d) / real_of_int (wins d + losses d)\<bar> \<ge> float_limit);
        ratio = (\<lambda>d. if wins d + losses d > 0
                   then fl (real_of_int (wins d) / real_of_int (wins d + losses d)) else 0);
        key = (\<lambda>d. (status d = ELIMINATED, - wins d, - ratio d, losses d))
    in ((\<exists>d\<in>set sel. over d) \<longrightarrow> get_rankings fl s dv = Inl OverflowError)
     \<and> (\<not> (\<exists>d\<in>set sel. over d) \<longrightarrow>
          (\<exists>ds. get_rankings fl s dv
                  = Inr (map (\<lambda>(i, d). \<lparr>rk_position = int i, rk_name = name d,
                                rk_division = division d, rk_wins = wins d, rk_losses = losses d,
                                rk_total_races = wins d + losses d, rk_win_ratio = ratio d,
                                rk_status = status d\<rparr>)
                           (enumerate 1 ds))
              \<and> sorted (map key ds)
              \<and> (\<forall>k. filter (\<lambda>d. key d = k) ds = filter (\<lambda>d. key d = k) sel)))
     \<and> ((\<forall>d\<in>set sel. 0 \<le> wins d \<and> 0 \<le> losses d) \<longrightarrow> \<not> (\<exists>d\<in>set sel. over d)))"
  using get_rankings_characterised [of s dv fl]
  unfolding Let_def drivers_to_rank_alt overflows_def ratio_def
  by this

theorem get_rankings_sorted_witness:
  "list_all (\<lambda>d. 0 \<le> wins d \<and> 0 \<le> losses d) (map snd (drivers paddock))
   \<and> get_rankings (\<lambda>x. x) paddock None = Inr paddock_ranking
   \<and> map rk_position paddock_ranking = [1, 2, 3, 4, 5]
   \<and> map rk_name paddock_ranking = [''Alice'', ''Bob'', ''Cara'', ''Dan'', ''Eve'']
   \<and> get_rankings (\<lambda>x. x) giant None = Inl OverflowError"
proof -
  note paddock_case = get_rankings_sorted [where s = paddock and dv = None and fl = "\<lambda>x. x",
      unfolded Let_def]
  note giant_case = get_rankings_sorted [where s = giant and dv = None and fl = "\<lambda>x. x",
      unfolded Let_def, THEN conjunct1, rule_format]
  have nonneg: "list_all (\<lambda>d. 0 \<le> wins d \<and> 0 \<le> losses d) (map snd (drivers paddock))"
    by (simp add: paddock_eq Driver_def)
  then have "\<forall>d\<in>set (filter (\<lambda>d. case None of None \<Rightarrow> True | Some x \<Rightarrow> division d = x)
                          (map snd (drivers paddock))). 0 \<le> wins d \<and> 0 \<le> losses d"
    by (simp add: list_all_iff)
  with paddock_case have "\<exists>out. get_rankings (\<lambda>x. x) paddock None = Inr out"
    by blast
  with paddock_ranked have ranked: "get_rankings (\<lambda>x. x) paddock None = Inr paddock_ranking"
    by simp
  have "\<exists>d\<in>set (filter (\<lambda>d. case None of None \<Rightarrow> True | Some x \<Rightarrow> division d = x)
                     (map snd (drivers giant))).
          0 < wins d + losses d
          \<and> float_limit \<le> \<bar>real_of_int (wins d) / real_of_int (wins d + losses d)\<bar>"
    by (simp add: giant_eq Driver_def float_limit_def)
  then have raised: "get_rankings (\<lambda>x. x) giant None = Inl OverflowError"
    by (rule giant_case)
  have "map rk_position paddock_ranking = [1, 2, 3, 4, 5]"
    and "map rk_name paddock_ranking = [''Alice'', ''Bob'', ''Cara'', ''Dan'', ''Eve'']"
    by (simp_all add: paddock_ranking_def)
  with nonneg ranked raised show ?thesis by simp
qed

text \<open>
  C2, as it is worded, with \<open>is_eliminated\<close> in the key. In the loaded manager
  \<open>paddock\<close> Dan has three losses and the stored status \<open>ACTIVE\<close>, Eve has five
  wins, no loss and the stored status \<open>ELIMINATED\<close>. The code ranks Dan fourth and
  Eve fifth; by the worded key Eve would be first and Dan last. The quotients 0/3 and
  5/5 are exact doubles, so the rounding is the identity here.
\<close>

theorem rankings_by_is_eliminated_counterexample:
  "get_rankings (\<lambda>x. x) paddock None = Inr paddock_ranking
   \<and> map rk_name paddock_ranking = [''Alice'', ''Bob'', ''Cara'', ''Dan'', ''Eve'']
   \<and> map spec_key paddock_ranking
       = [(False, 0, 0, 0), (False, 0, 0, 0), (False, 0, 0, 0), (True, 0, 0, 3), (False, - 5, - 1, 0)]
   \<and> \<not> sorted (map spec_key paddock_ranking)"
proof -
  have names: "map rk_name paddock_ranking = [''Alice'', ''Bob'', ''Cara'', ''Dan'', ''Eve'']"
    by (simp add: paddock_ranking_def)
  have keys: "map spec_key paddock_ranking
       = [(False, 0, 0, 0), (False, 0, 0, 0), (False, 0, 0, 0), (True, 0, 0, 3), (False, - 5, - 1, 0)]"
    by (simp add: paddock_ranking_def spec_key_def)
  have "\<not> sorted [(False, 0::int, 0::real, 0::int), (False, 0, 0, 0), (False, 0, 0, 0),
                    (True, 0, 0, 3), (False, - 5, - 1, 0)]"
    by simp
  with paddock_ranked names keys show ?thesis by simp
qed

section \<open>Import of a snapshot\<close>

text \<open>
  C7. When \<open>from_dict\<close> returns, the snapshot had a drivers and a races entry; the
  keys of the new \<open>drivers\<close> are the keys of the snapshot; every driver comes from a
  serialized driver under its key, with name and division as serialized, absent wins
  and losses taken as 0, absent races as the empty list and an absent status as
  \<open>ACTIVE\<close>; the race log is, element by element, the races of the snapshot, each
  built from its serialized fields (the timestamp from the clock when it is absent or
  empty, the race type \<open>regular\<close> when it is absent); and the race counter is the
  supplied value, or the number of imported races when the snapshot has none.
\<close>

theorem from_dict_reconstructs:
  assumes "from_dict now data s = (None, s')"
  shows "\<exists>dd rr. snap_drivers data = Some dd \<and> snap_races data = Some rr
     \<and> fst ` set (drivers s') = fst ` set dd
     \<and> (\<forall>(k, d)\<in>set (drivers s'). \<exists>x. (k, x) \<in> set dd
            \<and> data_name x = Some (name d) \<and> data_division x = Some (division d)
            \<and> wins d = (case data_wins x of None \<Rightarrow> 0 | Some w \<Rightarrow> w)
            \<and> losses d = (case data_losses x of None \<Rightarrow> 0 | Some l \<Rightarrow> l)
            \<and> races d = (case data_races x of None \<Rightarrow> [] | Some rs \<Rightarrow> rs)
            \<and> status d = (case data_status x of None \<Rightarrow> ACTIVE | Some st \<Rightarrow> st))
     \<and> list_all2 (\<lambda>r x. data_race_number x = Some (race_number r)
            \<and> data_driver1 x = Some (driver1 r) \<and> data_driver2 x = Some (driver2 r)
            \<and> data_winner x = Some (winner r) \<and> data_race_division x = Some (race_division r)
            \<and> timestamp r = (case data_timestamp x of None \<Rightarrow> now
                               | Some t \<Rightarrow> if t = [] then now else t)
            \<and> driver3 r = data_driver3 x
            \<and> race_type r = (case data_race_type x of None \<Rightarrow> ''regular'' | Some t \<Rightarrow> t))
          (race_log s') rr
     \<and> race_counter s' = (case snap_race_counter data of None \<Rightarrow> int (length rr) | Some c \<Rightarrow> c)"
proof -
  from assms obtain dd ds rr rs where dd: "snap_drivers data = Some dd"
    and ds: "dict_comp Driver_from_dict dd [] = Inr ds"
    and rr: "snap_races data = Some rr"
    and rs: "list_comp (Race_from_dict now) rr = Inr rs"
    and s': "s' = s\<lparr>drivers := ds, race_log := rs,
                    race_counter := get_default (snap_race_counter data) (int (length rs))\<rparr>"
    by (auto simp: from_dict_def Let_def split: option.splits sum.splits)
  have keys: "fst ` set (drivers s') = fst ` set dd"
    using dict_comp_keys [OF ds] s' by simp
  have entries: "\<forall>(k, d)\<in>set (drivers s'). \<exists>x. (k, x) \<in> set dd
            \<and> data_name x = Some (name d) \<and> data_division x = Some (division d)
            \<and> wins d = (case data_wins x of None \<Rightarrow> 0 | Some w \<Rightarrow> w)
            \<and> losses d = (case data_losses x of None \<Rightarrow> 0 | Some l \<Rightarrow> l)
            \<and> races d = (case data_races x of None \<Rightarrow> [] | Some rs \<Rightarrow> rs)
            \<and> status d = (case data_status x of None \<Rightarrow> ACTIVE | Some st \<Rightarrow> st)"
  proof (clarify)
    fix k d
    assume "(k, d) \<in> set (drivers s')"
    with s' have "(k, d) \<in> set ds" by simp
    with dict_comp_entries [OF ds] obtain x where x: "(k, x) \<in> set dd"
      and fx: "Driver_from_dict x = Inr d" by auto
    from Driver_from_dict_fields [OF fx] x
    show "\<exists>x. (k, x) \<in> set dd
            \<and> data_name x = Some (name d) \<and> data_division x = Some (division d)
            \<and> wins d = (case data_wins x of None \<Rightarrow> 0 | Some w \<Rightarrow> w)
            \<and> losses d = (case data_losses x of None \<Rightarrow> 0 | Some l \<Rightarrow> l)
            \<and> races d = (case data_races x of None \<Rightarrow> [] | Some rs \<Rightarrow> rs)
            \<and> status d = (case data_status x of None \<Rightarrow> ACTIVE | Some st \<Rightarrow> st)"
      by blast
  qed
  have all2: "list_all2 (\<lambda>r x. Race_from_dict now x = Inr r) rs rr"
    by (rule list_comp_all2 [OF rs])
  then have len: "length rs = length rr"
    by (rule list_all2_lengthD)
  have log: "list_all2 (\<lambda>r x. data_race_number x = Some (race_number r)
            \<and> data_driver1 x = Some (driver1 r) \<and> data_driver2 x = Some (driver2 r)
            \<and> data_winner x = Some (winner r) \<and> data_race_division x = Some (race_division r)
            \<and> timestamp r = (case data_timestamp x of None \<Rightarrow> now
                               | Some t \<Rightarrow> if t = [] then now else t)
            \<and> driver3 r = data_driver3 x
            \<and> race_type r = (case data_race_type x of None \<Rightarrow> ''regular'' | Some t \<Rightarrow> t))
          (race_log s') rr"
    using all2 s' by (auto elim!: list_all2_mono dest: Race_from_dict_fields)
  have counter: "race_counter s'
      = (case snap_race_counter data of None \<Rightarrow> int (length rr) | Some c \<Rightarrow> c)"
    using s' len by (simp add: get_default_def)
  from dd rr keys entries log counter show ?thesis by blast
qed

theorem from_dict_reconstructs_witness:
  "from_dict ''t0'' paddock_snapshot TournamentManager = (None, paddock)
   \<and> snap_race_counter paddock_snapshot = None
   \<and> length (race_log paddock) = 1
   \<and> race_counter paddock = 1
   \<and> fst ` set (drivers paddock) = {''Alice'', ''Bob'', ''Cara'', ''Dan'', ''Eve''}"
proof -
  from from_dict_reconstructs [OF paddock_loaded] obtain dd rr
    where dd: "snap_drivers paddock_snapshot = Some dd"
      and rr: "snap_races paddock_snapshot = Some rr"
      and keys: "fst ` set (drivers paddock) = fst ` set dd"
      and log: "length (race_log paddock) = length rr"
      and counter: "race_counter paddock
         = (case snap_race_counter paddock_snapshot of None \<Rightarrow> int (length rr) | Some c \<Rightarrow> c)"
    by (auto dest: list_all2_lengthD)
  have none: "snap_race_counter paddock_snapshot = None"
    by (simp add: paddock_snapshot_def)
  from rr have len: "length rr = 1"
    by (auto simp: paddock_snapshot_def)
  from dd have "fst ` set dd = {''Alice'', ''Bob'', ''Cara'', ''Dan'', ''Eve''}"
    by (auto simp: paddock_snapshot_def snapshot_entry_def)
  with keys log counter none len paddock_loaded show ?thesis by simp
qed

section \<open>Export and import\<close>

text \<open>
  C6. For every manager that the operations can produce, importing its own export (into
  any manager) returns normally and gives the same manager back: the same drivers in
  the same order with every field equal, the same race log, and the race counter it
  had. When the race counter is taken out of the snapshot, the race counter becomes
  the number of imported races and the rest is the same.
\<close>

theorem export_import_roundtrip:
  assumes "reachable s"
  shows "from_dict now (to_dict s) s0 = (None, s)
       \<and> from_dict now ((to_dict s)\<lparr>snap_race_counter := None\<rparr>) s0
           = (None, s\<lparr>race_counter := int (length (race_log s))\<rparr>)"
  using roundtrip_well_formed [OF reachable_well_formed [OF assms]] by simp


theorem export_import_roundtrip_witness:
  "reachable (snd (record_race ''t1'' ''Alice'' ''Bob'' ''Alice'' None ''regular'' open_pair))
   \<and> from_dict ''t2''
        (to_dict (snd (record_race ''t1'' ''Alice'' ''Bob'' ''Alice'' None ''regular'' open_pair)))
        TournamentManager
       = (None, snd (record_race ''t1'' ''Alice'' ''Bob'' ''Alice'' None ''regular'' open_pair))
   \<and> race_counter (snd (record_race ''t1'' ''Alice'' ''Bob'' ''Alice'' None ''regular'' open_pair)) = 1"
proof -
  have r: "reachable (snd (record_race ''t1'' ''Alice'' ''Bob'' ''Alice'' None ''regular'' open_pair))"
    unfolding open_pair_def by (intro reachable.intros) simp
  have c: "race_counter (snd (record_race ''t1'' ''Alice'' ''Bob'' ''Alice'' None ''regular'' open_pair)) = 1"
    by (simp add: open_pair_eq race_eval)
  from r c export_import_roundtrip [OF r, of "''t2''" TournamentManager]
  show ?thesis by simp
qed

section \<open>Totals of wins and losses\<close>

text \<open>
  C8, as the code has it. Start from a manager in which every driver has no win and
  no loss, and make any sequence of \<open>record_race\<close> calls whose participants are all
  registered. Then the wins of all drivers add up to the number of successful
  recordings, and the losses add up to the participant slots of the successful
  recordings minus the slots that name the winner of their race. When no call names a
  driver twice, each winner fills one slot, and the losses add up to the slots minus
  the number of successful recordings.
\<close>

theorem race_totals:
  assumes "\<forall>d\<in>set (dict_values (drivers s)). wins d = 0 \<and> losses d = 0"
    and "\<forall>c\<in>set cs. \<forall>n\<in>set (participants c). has_key (drivers s) n"
  shows "sum_wins (record_all s cs) = successes s cs
       \<and> sum_losses (record_all s cs) = slots s cs - winner_slots s cs
       \<and> ((\<forall>c\<in>set cs. distinct (participants c))
            \<longrightarrow> sum_losses (record_all s cs) = slots s cs - successes s cs)"
  using record_all_sums [OF assms(2)] zero_sums [OF assms(1)] winner_slots_distinct [OF assms(2)]
  by simp

theorem race_totals_witness:
  "successes open_trio season = 2
   \<and> slots open_trio season = 5
   \<and> winner_slots open_trio season = 2
   \<and> sum_wins (record_all open_trio season) = 2
   \<and> sum_losses (record_all open_trio season) = 3"
proof -
  have zero: "\<forall>d\<in>set (dict_values (drivers open_trio)). wins d = 0 \<and> losses d = 0"
    by (simp add: open_trio_eq dict_values_def Driver_def)
  have closed: "\<forall>c\<in>set season. \<forall>n\<in>set (participants c). has_key (drivers open_trio) n"
    by (simp add: season_def participants_def racing_drivers_def open_trio_eq has_key_def)
  have dist: "\<forall>c\<in>set season. distinct (participants c)"
    by (simp add: season_def participants_def racing_drivers_def)
  have n: "successes open_trio season = 2"
    by (simp add: open_trio_eq season_def tally_eval race_eval)
  have sl: "slots open_trio season = 5"
    by (simp add: open_trio_eq season_def tally_eval race_eval)
  have ws: "winner_slots open_trio season = 2"
    by (simp add: open_trio_eq season_def tally_eval race_eval)
  from race_totals [OF zero closed] dist n sl ws show ?thesis by simp
qed

text \<open>
  C8, as it is worded, fails when a driver is named in both slots of a race:
  \<open>record_race\<close> accepts Alice against Alice, counts her one win and charges no
  loss, so one successful recording with two slots leaves the losses at 0, not 1.
\<close>

theorem race_totals_self_race_counterexample:
  "map (\<lambda>d. (wins d, losses d)) (dict_values (drivers open_pair)) = [(0, 0), (0, 0)]
   \<and> list_all (has_key (drivers open_pair)) (participants self_race)
   \<and> successes open_pair [self_race] = 1
   \<and> slots open_pair [self_race] = 2
   \<and> sum_wins (record_all open_pair [self_race]) = 1
   \<and> sum_losses (record_all open_pair [self_race]) = 0
   \<and> sum_losses (record_all open_pair [self_race])
       \<noteq> slots open_pair [self_race] - successes open_pair [self_race]"
  by (simp add: open_pair_eq self_race_def tally_eval race_eval has_key_def)

end
